theory Spec2Isabelle
  imports Main "HOL-Library.Word"
begin

unbundle bit_operations_syntax

section \<open>Data model of \<open>monero_seed.cpp\<close>\<close>

text \<open>
  \<open>unsigned\<close> is a 32-bit word; \<open>x << n\<close> is \<open>push_bit n x\<close>, \<open>x >> n\<close> is \<open>drop_bit n x\<close>,
  and \<open>1u << n\<close> is \<open>push_bit n 1\<close> (all shift counts of the program are below 32). A seed or
  key byte (\<open>uint8_t\<close>) is an 8-bit word, a field element of GF(2^11) an 11-bit word.
  \<open>std::time_t\<close> is taken as a 64-bit signed integer and modelled as \<open>int\<close>: the only arithmetic
  on it, \<open>date_created - epoch\<close> for \<open>date_created \<ge> epoch\<close> and
  \<open>epoch + quantized_date * time_step\<close> for a quantized date below \<open>2^32\<close>, stays inside that
  range.
\<close>

type_synonym u32 = "32 word"
type_synonym u8 = "8 word"
type_synonym gf_elem = "11 word"

text \<open>
  Every \<open>THROW_EXCEPTION\<close> of the source is one constructor, named after the error kinds of
  the specification. \<open>AssertionFailed\<close> is a failing \<open>assert\<close>; \<open>OutOfBounds\<close> is an array
  access outside its bounds (undefined behaviour in C++).
\<close>

datatype error =
    DateBeforeEpoch
  | UnknownWord string
  | TooManyErasures
  | WrongTokenCount
  | ChecksumMismatch
  | AssertionFailed
  | OutOfBounds

definition erasure :: string where
  "erasure = ''xxxx''"

definition epoch :: int where
  "epoch = 1590969600"

definition time_step :: int where
  "time_step = 2629746"

definition date_bits :: nat where
  "date_bits = 10"

definition date_mask :: u32 where
  "date_mask = push_bit date_bits 1 - 1"

definition version_bits :: nat where
  "version_bits = 3"

definition reserved_bits :: nat where
  "reserved_bits = 2"

definition check_digits :: nat where
  "check_digits = 1"

text \<open>
  Modelled from the spec: \<open>gf_elem::size()\<close>, \<open>gf_2048::elements()\<close> and
  \<open>gf_poly::max_degree\<close> come from the missing headers \<open>gf_poly.hpp\<close> and its field header.
  The specification fixes them: 11-bit elements, 2048 of them, 14 coefficients.
\<close>

definition gf_size :: nat where
  "gf_size = 11"

definition gf_elements :: nat where
  "gf_elements = 2048"

definition max_degree :: nat where
  "max_degree = 13"

definition checksum_size :: nat where
  "checksum_size = gf_size * check_digits"

definition phrase_words :: nat where
  "phrase_words = max_degree + 1"

definition total_bits :: nat where
  "total_bits = gf_size * phrase_words"

definition argon_tcost :: nat where
  "argon_tcost = 3"

definition argon_mcost :: nat where
  "argon_mcost = 256 * 1024"

definition CHAR_BIT :: nat where
  "CHAR_BIT = 8"

text \<open>
  Modelled from the spec: class \<open>gf_poly\<close> (\<open>gf_poly.hpp\<close> is missing): a fixed-capacity
  container of 14 coefficients together with a mutable degree in \<open>[-1, 13]\<close>.
\<close>

record gf_poly =
  coeff :: "gf_elem list"
  degree :: int

text \<open>
  Modelled from the spec: the default-constructed \<open>message_\<close>. All coefficients are zero.
  Section 4.5 step 5 has the packer fill coefficients 1..13 of the empty polynomial and leave
  coefficient 0 zero for the encoder; the first \<open>write_data\<close> of the source enters with
  \<open>rem_bits = 11\<close> and writes to \<open>poly[poly.degree()]\<close> without advancing, so that target is
  coefficient 1.
\<close>

definition empty_poly :: gf_poly where
  "empty_poly = \<lparr>coeff = replicate phrase_words 0, degree = 1\<rparr>"

section \<open>The bit packer\<close>

text \<open>
  \<open>write_data\<close>, lines 65-77. The polynomial and \<open>rem_bits\<close> are passed by reference in the
  source and returned here. \<open>poly[i]\<close> outside \<open>0..13\<close> is \<open>OutOfBounds\<close>.
\<close>

function write_data :: "gf_poly \<Rightarrow> nat \<Rightarrow> u32 \<Rightarrow> nat \<Rightarrow> error + (gf_poly \<times> nat)" where
  "write_data poly rem_bits val bits =
    (let poly1 = (if rem_bits = 0 then poly\<lparr>degree := degree poly + 1\<rparr> else poly);
         rem1 = (if rem_bits = 0 then gf_size else rem_bits);
         digit_bits = min rem1 bits;
         rest_bits = bits - digit_bits;
         rem2 = rem1 - digit_bits
     in if degree poly1 < 0 \<or> int max_degree < degree poly1 then Inl OutOfBounds
        else
          let i = nat (degree poly1);
              poly2 = poly1\<lparr>coeff := (coeff poly1)
                [i := (coeff poly1 ! i) OR
                      ucast (push_bit rem2
                        (drop_bit rest_bits val AND (push_bit digit_bits 1 - 1)))]\<rparr>
          in if rest_bits > 0
             then write_data poly2 rem2 (val AND (push_bit rest_bits 1 - 1)) rest_bits
             else Inr (poly2, rem2))"
  by pat_completeness auto
termination
proof (relation "measure (\<lambda>(poly, rem_bits, val, bits). bits)", goal_cases)
  case 1
  show ?case by simp
next
  case (2 poly rem_bits val bits poly1 rem1 digit_bits rest_bits rem2 i poly2)
  have "0 < rem1"
    using 2(2) by (simp add: gf_size_def)
  then have "0 < rest_bits \<Longrightarrow> 0 < digit_bits"
    using 2(3,4) by (simp add: min_def split: if_splits)
  then have "rest_bits < bits"
    using 2(4) \<open>0 < rest_bits\<close> by simp
  then show ?case by simp
qed

declare write_data.simps [simp del]

text \<open>
  \<open>read_data\<close>, lines 79-91, for a destination of type \<open>T = 'a word\<close>: \<open>value |= x\<close> keeps the
  low bits of \<open>x\<close> that fit \<open>T\<close>.
\<close>

function read_data :: "gf_poly \<Rightarrow> nat \<Rightarrow> 'a::len word \<Rightarrow> nat \<Rightarrow> error + (nat \<times> 'a word)" where
  "read_data poly used_bits val bits =
    (let coeff_index = used_bits div gf_size;
         bit_index = used_bits mod gf_size;
         digit_bits = min (gf_size - bit_index) bits;
         rem_bits = gf_size - bit_index - digit_bits;
         rest_bits = bits - digit_bits
     in if max_degree < coeff_index then Inl OutOfBounds
        else
          let val1 = val OR
                ucast (push_bit rest_bits
                  (drop_bit rem_bits (ucast (coeff poly ! coeff_index) :: u32)
                     AND (push_bit bits 1 - 1)));
              used1 = used_bits + digit_bits
          in if rest_bits > 0
             then read_data poly used1 val1 rest_bits
             else Inr (used1, val1))"
  by pat_completeness auto
termination
proof (relation "measure (\<lambda>(poly, used_bits, val, bits). bits)", goal_cases)
  case 1
  show ?case by simp
next
  case (2 poly used_bits val bits coeff_index bit_index digit_bits rem_bits rest_bits val1 used1)
  have "bit_index < 11"
    using 2(2) by (simp add: gf_size_def)
  then have "0 < rest_bits \<Longrightarrow> 0 < digit_bits"
    using 2(3,5) by (simp add: gf_size_def min_def split: if_splits)
  then have "rest_bits < bits"
    using 2(5) \<open>0 < rest_bits\<close> by simp
  then show ?case by simp
qed

declare read_data.simps [simp del]

section \<open>Field, polynomial and Reed-Solomon code\<close>

text \<open>
  Modelled from the spec: the arithmetic of GF(2^11) (section 4.1; the field header is
  missing). Addition is XOR; multiplication is carry-less multiplication modulo
  \<open>x^11 + x^2 + 1\<close>, numeric constant \<open>0x805\<close>, here by shifting and adding over the eleven
  bits of the second factor; the generator is the element \<open>x\<close>, numeric 2.
\<close>

definition gf_add :: "gf_elem \<Rightarrow> gf_elem \<Rightarrow> gf_elem" where
  "gf_add a b = a XOR b"

definition gf_reduce :: "u32 \<Rightarrow> u32" where
  "gf_reduce a = (if bit a 11 then a XOR 0x805 else a)"

fun gf_mul_loop :: "nat \<Rightarrow> u32 \<Rightarrow> u32 \<Rightarrow> u32 \<Rightarrow> u32" where
  "gf_mul_loop 0 a b r = r"
| "gf_mul_loop (Suc n) a b r =
     gf_mul_loop n (gf_reduce (push_bit 1 a)) (drop_bit 1 b) (if bit b 0 then r XOR a else r)"

definition gf_mul :: "gf_elem \<Rightarrow> gf_elem \<Rightarrow> gf_elem" where
  "gf_mul a b = ucast (gf_mul_loop 11 (ucast a) (ucast b) 0)"

fun gf_pow :: "gf_elem \<Rightarrow> nat \<Rightarrow> gf_elem" where
  "gf_pow a 0 = 1"
| "gf_pow a (Suc n) = gf_mul (gf_pow a n) a"

definition gf_alpha :: gf_elem where
  "gf_alpha = 2"

text \<open>
  Modelled from the spec: the operations of \<open>gf_poly\<close> (section 4.2; \<open>gf_poly.hpp\<close> is
  missing). Evaluation is Horner's scheme over the coefficients \<open>0..degree\<close>, highest first.
  \<open>set_degree()\<close> scans the coefficients high to low and fixes the degree at the highest
  nonzero index, or -1 if all are zero.
\<close>

definition poly_eval :: "gf_poly \<Rightarrow> gf_elem \<Rightarrow> gf_elem" where
  "poly_eval p x =
     foldr (\<lambda>c acc. gf_add (gf_mul acc x) c) (take (nat (degree p + 1)) (coeff p)) 0"

fun highest_nonzero :: "gf_elem list \<Rightarrow> nat \<Rightarrow> int" where
  "highest_nonzero cs 0 = - 1"
| "highest_nonzero cs (Suc n) = (if cs ! n \<noteq> 0 then int n else highest_nonzero cs n)"

definition set_degree :: "gf_poly \<Rightarrow> gf_poly" where
  "set_degree p = p\<lparr>degree := highest_nonzero (coeff p) phrase_words\<rparr>"

text \<open>
  Modelled from the spec: the Reed-Solomon code \<open>rs\<close> (section 4.3;
  \<open>reed_solomon_code.hpp\<close> is missing). The roots of the generator polynomial are
  \<open>\<alpha>^0, ..., \<alpha>^(K-1)\<close> with \<open>K = check_digits\<close>. Verify accepts iff the candidate evaluates
  to zero at every root. Encode computes the remainder of the polynomial on entry
  (coefficient 0 zero, data in coefficients 1..13) modulo the generator and places it in the
  coefficients \<open>0..K-1\<close>; for the single check symbol of this program the generator is
  \<open>x - \<alpha>^0\<close>, and the remainder of a division by \<open>x - a\<close> is the value at \<open>a\<close>, which the same
  Horner scheme computes. The degree is left as the packer set it.
\<close>

definition rs_roots :: "gf_elem list" where
  "rs_roots = map (gf_pow gf_alpha) [0..<check_digits]"

definition rs_check :: "gf_poly \<Rightarrow> bool" where
  "rs_check p = list_all (\<lambda>a. poly_eval p a = 0) rs_roots"

definition rs_encode :: "gf_poly \<Rightarrow> gf_poly" where
  "rs_encode p = p\<lparr>coeff := (coeff p)[0 := poly_eval p (gf_pow gf_alpha 0)]\<rparr>"

section \<open>Wordlist, key derivation and the seed object\<close>

text \<open>
  Modelled from the spec: \<open>wordlist::english\<close> (section 6; \<open>wordlist.hpp\<close> is missing). The
  table is a parameter \<open>wl\<close> of everything that uses it. \<open>parse\<close> returns the index of a word,
  or -1 if it is absent; \<open>get_word\<close> returns the word at an index.
\<close>

fun wordlist_find :: "string list \<Rightarrow> string \<Rightarrow> int \<Rightarrow> int" where
  "wordlist_find [] w i = - 1"
| "wordlist_find (x # xs) w i = (if x = w then i else wordlist_find xs w (i + 1))"

definition wordlist_parse :: "string list \<Rightarrow> string \<Rightarrow> int" where
  "wordlist_parse wl w = wordlist_find wl w 0"

definition get_word :: "string list \<Rightarrow> nat \<Rightarrow> string" where
  "get_word wl i = wl ! i"

text \<open>
  Modelled from the spec: what sections 4.1 and 6 say of the table. It has 2048 words, in
  one-to-one correspondence with the field elements; a phrase separates its tokens by single
  spaces, and the erasure marker is a token that is not a word.
\<close>

definition wordlist_ok :: "string list \<Rightarrow> bool" where
  "wordlist_ok wl \<longleftrightarrow>
     length wl = gf_elements \<and> distinct wl \<and> erasure \<notin> set wl \<and>
     list_all (\<lambda>w. w \<noteq> [] \<and> CHR '' '' \<notin> set w) wl"

text \<open>
  Argon2id is an external primitive: \<open>argon2id_hash_raw(t_cost, m_cost, parallelism, pwd,
  salt, out_len)\<close> is a parameter \<open>kdf\<close> of \<open>generate\<close> and \<open>parse\<close>. The salt is built as
  lines 105-107 and 189-191 do: a 25-byte array initialised from the string literal (the rest
  zero), byte 20 overwritten with the version, bytes 21..24 with \<open>store32\<close> (little-endian).
\<close>

type_synonym kdf = "nat \<Rightarrow> nat \<Rightarrow> nat \<Rightarrow> u8 list \<Rightarrow> u8 list \<Rightarrow> nat \<Rightarrow> u8 list"

definition store32 :: "u8 list \<Rightarrow> nat \<Rightarrow> u32 \<Rightarrow> u8 list" where
  "store32 buf off w =
     buf[off := ucast w, off + 1 := ucast (drop_bit 8 w),
         off + 2 := ucast (drop_bit 16 w), off + 3 := ucast (drop_bit 24 w)]"

definition salt_init :: "u8 list" where
  "salt_init =
     (let s = map (\<lambda>c. of_nat (of_char c)) ''Monero 14-word seed''
      in s @ replicate (25 - length s) 0)"

definition make_salt :: "u32 \<Rightarrow> u32 \<Rightarrow> u8 list" where
  "make_salt ver quantized_date = store32 (salt_init[20 := ucast ver]) 21 quantized_date"

text \<open>
  Modelled from the spec: \<open>key_.size()\<close> and \<open>seed_.size()\<close>, fixed by the missing header: a
  256-bit key and a 128-bit seed.
\<close>

definition key_size :: nat where
  "key_size = 32"

definition seed_size :: nat where
  "seed_size = 16"

definition derive_key :: "kdf \<Rightarrow> u8 list \<Rightarrow> u32 \<Rightarrow> u32 \<Rightarrow> u8 list" where
  "derive_key kdf pwd ver quantized_date =
     kdf argon_tcost argon_mcost 1 pwd (make_salt ver quantized_date) key_size"

text \<open>
  Modelled from the spec: the members of class \<open>monero_seed\<close> (\<open>monero_seed.hpp\<close> is missing):
  a seed of 16 bytes, a key of 32 bytes, the date, version, reserved field, correction and
  message. \<open>version_\<close> and \<open>reserved_\<close> are taken as \<open>unsigned\<close>; their reads never cross a
  coefficient and the values fit any integer type.
\<close>

record monero_seed =
  seed :: "u8 list"
  key :: "u8 list"
  date :: int
  version :: u32
  reserved :: u32
  correction :: string
  message :: gf_poly

section \<open>Generate\<close>

text \<open>
  The loop of lines 114-116 over the seed bytes.
\<close>

fun write_bytes :: "gf_poly \<Rightarrow> nat \<Rightarrow> u8 list \<Rightarrow> error + (gf_poly \<times> nat)" where
  "write_bytes poly rem_bits [] = Inr (poly, rem_bits)"
| "write_bytes poly rem_bits (b # bs) =
     (case write_data poly rem_bits (ucast b) CHAR_BIT of
        Inl e \<Rightarrow> Inl e
      | Inr (poly1, rem1) \<Rightarrow> write_bytes poly1 rem1 bs)"

text \<open>
  Line 99. The division is C++ division of two non-negative values, so it is \<open>div\<close>.
\<close>

definition quantize :: "int \<Rightarrow> u32" where
  "quantize date_created =
     word_of_int (((date_created - epoch) div time_step) AND uint date_mask)"

text \<open>
  Lines 110-116: the payload is packed in the order version, reserved, date, seed bytes into
  the empty polynomial, starting with \<open>rem_bits = gf_elem::size()\<close>.
\<close>

definition pack_payload :: "u32 \<Rightarrow> u32 \<Rightarrow> u32 \<Rightarrow> u8 list \<Rightarrow> error + (gf_poly \<times> nat)" where
  "pack_payload ver res quantized_date bytes =
    (case write_data empty_poly gf_size ver version_bits of
       Inl e \<Rightarrow> Inl e
     | Inr (p1, r1) \<Rightarrow>
     (case write_data p1 r1 res reserved_bits of
       Inl e \<Rightarrow> Inl e
     | Inr (p2, r2) \<Rightarrow>
     (case write_data p2 r2 quantized_date date_bits of
       Inl e \<Rightarrow> Inl e
     | Inr (p3, r3) \<Rightarrow> write_bytes p3 r3 bytes)))"

text \<open>
  The constructor \<open>monero_seed(std::time_t)\<close>, lines 95-119. \<open>rnd\<close> is what
  \<open>secure_random::gen_bytes\<close> stores into the 16 bytes of \<open>seed_\<close>.
\<close>

definition generate :: "kdf \<Rightarrow> int \<Rightarrow> u8 list \<Rightarrow> error + monero_seed" where
  "generate kdf date_created rnd =
    (if date_created < epoch then Inl DateBeforeEpoch
     else
       let quantized_date = quantize date_created;
           date1 = epoch + uint quantized_date * time_step;
           version1 = 0;
           reserved1 = 0;
           key1 = derive_key kdf rnd version1 quantized_date
       in case pack_payload version1 reserved1 quantized_date rnd of
            Inl e \<Rightarrow> Inl e
          | Inr (p, rem_bits) \<Rightarrow>
              if rem_bits \<noteq> 0 then Inl AssertionFailed
              else Inr \<lparr>seed = rnd, key = key1, date = date1, version = version1,
                        reserved = reserved1, correction = [], message = rs_encode p\<rparr>)"

section \<open>Parse\<close>

text \<open>
  \<open>phrase.find(' ', offset)\<close> and \<open>phrase.substr(offset, n)\<close>.
\<close>

definition find_char :: "string \<Rightarrow> char \<Rightarrow> nat \<Rightarrow> nat option" where
  "find_char s c pos =
     (let k = length (takeWhile (\<lambda>x. x \<noteq> c) (drop pos s))
      in if pos + k < length s then Some (pos + k) else None)"

definition substr :: "string \<Rightarrow> nat \<Rightarrow> nat \<Rightarrow> string" where
  "substr s pos n = take n (drop pos s)"

text \<open>
  The \<open>do ... while\<close> loop of lines 126-145. The array \<open>words\<close> has \<open>phrase_words\<close> entries and
  only \<open>words[word_count]\<close> is used within one iteration, so the model keeps the current word
  and the bound of the array: storing a fifteenth word is \<open>OutOfBounds\<close>. The conversion of
  the index to a field element keeps its low 11 bits (the index -1 of an erasure gives the
  nonzero sentinel 2047).
\<close>

function parse_loop ::
  "string list \<Rightarrow> string \<Rightarrow> nat \<Rightarrow> nat \<Rightarrow> int \<Rightarrow> gf_elem list
     \<Rightarrow> error + (nat \<times> int \<times> gf_elem list)" where
  "parse_loop wl phrase offset word_count err msg =
    (let delim = (case find_char phrase CHR '' '' offset of
                    None \<Rightarrow> length phrase | Some d \<Rightarrow> d);
         word = substr phrase offset (delim - offset)
     in if phrase_words \<le> word_count then Inl OutOfBounds
        else
          let index = wordlist_parse wl word
          in if index = - 1 \<and> word \<noteq> erasure then Inl (UnknownWord word)
             else if index = - 1 \<and> 0 \<le> err then Inl TooManyErasures
             else
               let err1 = (if index = - 1 then int word_count else err);
                   msg1 = msg[word_count := word_of_int index];
                   offset1 = delim + 1
               in if offset1 < length phrase
                  then parse_loop wl phrase offset1 (word_count + 1) err1 msg1
                  else Inr (word_count + 1, err1, msg1))"
  by pat_completeness auto
termination
proof (relation "measure (\<lambda>(wl, phrase, offset, word_count, err, msg). length phrase - offset)",
    goal_cases)
  case 1
  show ?case by simp
next
  case (2 wl phrase offset word_count err msg delim word index err1 msg1 offset1)
  have "offset \<le> delim"
    using 2(1) \<open>offset1 < length phrase\<close> \<open>offset1 = delim + 1\<close>
    by (auto simp: find_char_def Let_def split: option.splits if_splits)
  then show ?case
    using \<open>offset1 < length phrase\<close> \<open>offset1 = delim + 1\<close> by simp
qed

declare parse_loop.simps [simp del]

text \<open>
  The search of lines 154-160: try every field value at the erased position and stop at the
  first that verifies. Returns the polynomial and \<open>correction_\<close> (empty if none verified).
\<close>

function erasure_scan :: "string list \<Rightarrow> gf_poly \<Rightarrow> nat \<Rightarrow> nat \<Rightarrow> gf_poly \<times> string" where
  "erasure_scan wl p e i =
    (if i < gf_elements
     then
       let p1 = p\<lparr>coeff := (coeff p)[e := of_nat i]\<rparr>
       in if rs_check p1 then (p1, get_word wl i) else erasure_scan wl p1 e (i + 1)
     else (p, []))"
  by pat_completeness auto
termination
  by (relation "measure (\<lambda>(wl, p, e, i). gf_elements - i)") simp_all

declare erasure_scan.simps [simp del]

text \<open>
  The loop of lines 181-183 over the (zeroed) seed bytes.
\<close>

fun read_bytes :: "gf_poly \<Rightarrow> nat \<Rightarrow> nat \<Rightarrow> error + (nat \<times> u8 list)" where
  "read_bytes poly used_bits 0 = Inr (used_bits, [])"
| "read_bytes poly used_bits (Suc n) =
     (case read_data poly used_bits (0 :: u8) CHAR_BIT of
        Inl e \<Rightarrow> Inl e
      | Inr (used1, b) \<Rightarrow>
        (case read_bytes poly used1 n of
           Inl e \<Rightarrow> Inl e
         | Inr (used2, bs) \<Rightarrow> Inr (used2, b # bs)))"

text \<open>
  Lines 153-167: erasure correction or verification.
\<close>

definition correct_or_check :: "string list \<Rightarrow> gf_poly \<Rightarrow> int \<Rightarrow> error + (gf_poly \<times> string)" where
  "correct_or_check wl p err =
    (if 0 \<le> err
     then
       let (p1, corr) = erasure_scan wl p (nat err) 0
       in if corr = [] then Inl AssertionFailed else Inr (p1, corr)
     else if \<not> rs_check p then Inl ChecksumMismatch
     else Inr (p, []))"

text \<open>
  Lines 169-192: unpacking and key derivation.
\<close>

definition decode :: "kdf \<Rightarrow> gf_poly \<Rightarrow> string \<Rightarrow> error + monero_seed" where
  "decode kdf p corr =
    (case read_data p checksum_size (0 :: u32) version_bits of
       Inl e \<Rightarrow> Inl e
     | Inr (u1, version1) \<Rightarrow>
     (case read_data p u1 (0 :: u32) reserved_bits of
       Inl e \<Rightarrow> Inl e
     | Inr (u2, reserved1) \<Rightarrow>
     (case read_data p u2 (0 :: u32) date_bits of
       Inl e \<Rightarrow> Inl e
     | Inr (u3, quantized_date) \<Rightarrow>
     (case read_bytes p u3 seed_size of
       Inl e \<Rightarrow> Inl e
     | Inr (u4, seed1) \<Rightarrow>
         if u4 \<noteq> total_bits then Inl AssertionFailed
         else Inr \<lparr>seed = seed1,
                   key = derive_key kdf seed1 version1 quantized_date,
                   date = epoch + uint quantized_date * time_step,
                   version = version1, reserved = reserved1,
                   correction = corr, message = p\<rparr>))))"

text \<open>
  The constructor \<open>monero_seed(const std::string&)\<close>, lines 121-193. The loop fills the
  coefficients of the default-constructed \<open>message_\<close>; \<open>set_degree()\<close> then fixes its degree.
\<close>

definition parse :: "kdf \<Rightarrow> string list \<Rightarrow> string \<Rightarrow> error + monero_seed" where
  "parse kdf wl phrase =
    (case parse_loop wl phrase 0 0 (- 1) (coeff empty_poly) of
       Inl e \<Rightarrow> Inl e
     | Inr (word_count, err, msg) \<Rightarrow>
         if word_count \<noteq> phrase_words then Inl WrongTokenCount
         else
           (case correct_or_check wl (set_degree (empty_poly\<lparr>coeff := msg\<rparr>)) err of
              Inl e \<Rightarrow> Inl e
            | Inr (p, corr) \<Rightarrow> decode kdf p corr))"

section \<open>Phrase output\<close>

text \<open>
  \<open>operator<<\<close>, lines 195-203: the words of the coefficients \<open>0..degree\<close>, a single space
  before every word but the first.
\<close>

fun join_sp :: "string list \<Rightarrow> string" where
  "join_sp [] = []"
| "join_sp [w] = w"
| "join_sp (w # ws) = w @ CHR '' '' # join_sp ws"

definition phrase_out :: "string list \<Rightarrow> monero_seed \<Rightarrow> string" where
  "phrase_out wl s =
     join_sp (map (\<lambda>c. get_word wl (unat c))
       (take (nat (degree (message s) + 1)) (coeff (message s))))"

text \<open>
  Splitting a string on single spaces, the notion of token the claims use.
\<close>

fun split_sp :: "string \<Rightarrow> string list" where
  "split_sp [] = [[]]"
| "split_sp (c # cs) =
     (if c = CHR '' '' then [] # split_sp cs
      else (c # hd (split_sp cs)) # tl (split_sp cs))"

section \<open>A concrete table and a concrete hash for evaluation\<close>

text \<open>
  The English table and Argon2id are not part of the model. To run \<open>generate\<close> and \<open>parse\<close>
  on concrete inputs, \<open>test_wordlist\<close> is a table of 2048 distinct words (word \<open>n\<close> spells
  the eleven bits of \<open>n\<close>, lowest first, with the letters a and b) and \<open>test_kdf\<close> a stand-in
  for the hash.
\<close>

definition test_word :: "nat \<Rightarrow> string" where
  "test_word n = map (\<lambda>i. if bit n i then CHR ''b'' else CHR ''a'') [0..<11]"

definition test_wordlist :: "string list" where
  "test_wordlist = map test_word [0..<2048]"

definition test_kdf :: kdf where
  "test_kdf t m p pwd salt n = take n (pwd @ salt @ replicate n 0)"

section \<open>Auxiliary notions for the proofs\<close>

text \<open>
  One term of the packer and of the unpacker: \<open>cnt\<close> bits of \<open>x\<close>, from bit \<open>lo\<close> upwards,
  placed at bit \<open>shift\<close>; the shifting is done on 32 bits, as in the source.
\<close>

definition piece :: "nat \<Rightarrow> nat \<Rightarrow> nat \<Rightarrow> 'a::len word \<Rightarrow> 'b::len word" where
  "piece shift cnt lo x = ucast (push_bit shift (take_bit cnt (drop_bit lo (ucast x :: u32))))"

text \<open>
  The closed form of the coefficients that \<open>pack_payload\<close> computes for 16 bytes (lemma
  \<open>pack_closed\<close>): coefficient 0 is left to the encoder.
\<close>

definition packed :: "u32 \<Rightarrow> u32 \<Rightarrow> u32 \<Rightarrow> u8 list \<Rightarrow> gf_elem list" where
  "packed ver res quantized_date bytes =
    [0,
     (piece 8 3 0 ver OR piece 6 2 0 res) OR piece 0 6 4 quantized_date,
     piece 7 4 0 quantized_date OR piece 0 7 1 (bytes ! 0),
     (piece 10 1 0 (bytes ! 0) OR piece 2 8 0 (bytes ! 1)) OR piece 0 2 6 (bytes ! 2),
     piece 5 6 0 (bytes ! 2) OR piece 0 5 3 (bytes ! 3),
     piece 8 3 0 (bytes ! 3) OR piece 0 8 0 (bytes ! 4),
     piece 3 8 0 (bytes ! 5) OR piece 0 3 5 (bytes ! 6),
     piece 6 5 0 (bytes ! 6) OR piece 0 6 2 (bytes ! 7),
     (piece 9 2 0 (bytes ! 7) OR piece 1 8 0 (bytes ! 8)) OR piece 0 1 7 (bytes ! 9),
     piece 4 7 0 (bytes ! 9) OR piece 0 4 4 (bytes ! 10),
     piece 7 4 0 (bytes ! 10) OR piece 0 7 1 (bytes ! 11),
     (piece 10 1 0 (bytes ! 11) OR piece 2 8 0 (bytes ! 12)) OR piece 0 2 6 (bytes ! 13),
     piece 5 6 0 (bytes ! 13) OR piece 0 5 3 (bytes ! 14),
     piece 8 3 0 (bytes ! 14) OR piece 0 8 0 (bytes ! 15)]"

text \<open>
  The sum of a list of field elements. At the root \<open>\<alpha>^0 = 1\<close> Horner's scheme adds up the
  coefficients.
\<close>

definition xorsum :: "gf_elem list \<Rightarrow> gf_elem" where
  "xorsum cs = foldr (XOR) cs 0"

text \<open>
  The loop of \<open>parse\<close> over a list of tokens instead of a string with offsets (lemma
  \<open>parse_loop_join\<close> relates the two), a token without a space, and the coefficient stored for
  a token.
\<close>

fun scan_words ::
  "string list \<Rightarrow> string list \<Rightarrow> nat \<Rightarrow> int \<Rightarrow> gf_elem list
     \<Rightarrow> error + (nat \<times> int \<times> gf_elem list)" where
  "scan_words wl [] word_count err msg = Inr (word_count, err, msg)"
| "scan_words wl (w # ws) word_count err msg =
    (if phrase_words \<le> word_count then Inl OutOfBounds
     else
       let index = wordlist_parse wl w
       in if index = - 1 \<and> w \<noteq> erasure then Inl (UnknownWord w)
          else if index = - 1 \<and> 0 \<le> err then Inl TooManyErasures
          else scan_words wl ws (word_count + 1)
                 (if index = - 1 then int word_count else err)
                 (msg[word_count := word_of_int index]))"

definition spaceless :: "string \<Rightarrow> bool" where
  "spaceless w \<longleftrightarrow> w \<noteq> [] \<and> CHR '' '' \<notin> set w"

definition word_coeff :: "string list \<Rightarrow> string \<Rightarrow> gf_elem" where
  "word_coeff wl w = word_of_int (wordlist_parse wl w)"

text \<open>
  What the third \<open>read_data\<close> of \<open>parse\<close> returns on a polynomial packed from \<open>ver\<close>, \<open>res\<close>
  and \<open>q\<close> (lemma \<open>unpack_date\<close>): the ten date bits, and above them the four bits that
  precede the date in coefficient 1.
\<close>

definition leaked_date :: "u32 \<Rightarrow> u32 \<Rightarrow> u32 \<Rightarrow> u32" where
  "leaked_date ver res q =
     (take_bit 10 q OR push_bit 10 (take_bit 2 res)) OR push_bit 12 (take_bit 2 ver)"

text \<open>
  The two constructors of \<open>monero_seed\<close> as one operation, to speak about any run that builds
  a seed object. A generate run draws the 16 bytes of \<open>seed_\<close>.
\<close>

datatype construction = Generate int "u8 list" | Parse string

fun construct :: "kdf \<Rightarrow> string list \<Rightarrow> construction \<Rightarrow> error + monero_seed" where
  "construct kdf wl (Generate date_created rnd) = generate kdf date_created rnd"
| "construct kdf wl (Parse phrase) = parse kdf wl phrase"

fun construction_ok :: "construction \<Rightarrow> bool" where
  "construction_ok (Generate date_created rnd) \<longleftrightarrow> length rnd = seed_size"
| "construction_ok (Parse phrase) \<longleftrightarrow> True"

text \<open>
  The quantized date of a seed object, recovered from the stored date.
\<close>

definition quantized_date_of :: "monero_seed \<Rightarrow> int" where
  "quantized_date_of s = (date s - epoch) div time_step"

section \<open>The packer and the unpacker\<close>

lemma replicate14: "replicate 14 x = [x,x,x,x,x,x,x,x,x,x,x,x,x,x]"
  by (simp add: eval_nat_numeral)

lemma mask_minus: "push_bit n (1::'a::len word) - 1 = mask n"
  by (simp add: mask_eq_exp_minus_1 push_bit_eq_mult)

lemma bit_piece:
  "bit (piece s c l (x :: 'a::len word) :: 'b::len word) n \<longleftrightarrow>
     n < LENGTH('b) \<and> n < 32 \<and> s \<le> n \<and> n - s < c \<and> n - s + l < 32 \<and> bit x (n - s + l)"
  by (auto simp: piece_def bit_simps add.commute)

lemma piece_take_bit: "c + l \<le> r \<Longrightarrow> piece s c l (take_bit r x :: u32) = (piece s c l x :: 'b::len word)"
  by (rule bit_word_eqI) (auto simp: bit_piece bit_simps)

lemma piece_ucast_byte: "piece s c l (ucast (b :: u8) :: u32) = (piece s c l b :: 'b::len word)"
  by (rule bit_word_eqI) (auto simp: bit_piece bit_simps)

lemma write_data_unfold:
  "write_data poly rem_bits val bits =
    (let poly1 = (if rem_bits = 0 then poly\<lparr>degree := degree poly + 1\<rparr> else poly);
         rem1 = (if rem_bits = 0 then gf_size else rem_bits);
         digit_bits = min rem1 bits;
         rest_bits = bits - digit_bits;
         rem2 = rem1 - digit_bits
     in if degree poly1 < 0 \<or> int max_degree < degree poly1 then Inl OutOfBounds
        else
          let i = nat (degree poly1);
              poly2 = poly1\<lparr>coeff := (coeff poly1)
                [i := (coeff poly1 ! i) OR piece rem2 digit_bits rest_bits val]\<rparr>
          in if rest_bits > 0
             then write_data poly2 rem2 (take_bit rest_bits val) rest_bits
             else Inr (poly2, rem2))"
  by (subst write_data.simps) (simp only: mask_minus take_bit_eq_mask piece_def ucast_id)

lemma read_data_unfold:
  "read_data poly used_bits val bits =
    (let coeff_index = used_bits div gf_size;
         bit_index = used_bits mod gf_size;
         digit_bits = min (gf_size - bit_index) bits;
         rem_bits = gf_size - bit_index - digit_bits;
         rest_bits = bits - digit_bits
     in if max_degree < coeff_index then Inl OutOfBounds
        else
          let val1 = val OR piece rest_bits bits rem_bits (coeff poly ! coeff_index);
              used1 = used_bits + digit_bits
          in if rest_bits > 0
             then read_data poly used1 val1 rest_bits
             else Inr (used1, val1))"
  by (subst read_data.simps) (simp only: mask_minus take_bit_eq_mask piece_def)

lemmas pack_simps = pack_payload_def write_data_unfold Let_def gf_size_def max_degree_def
  phrase_words_def empty_poly_def version_bits_def reserved_bits_def date_bits_def CHAR_BIT_def
  replicate14 piece_take_bit piece_ucast_byte

lemmas unpack_simps = read_data_unfold Let_def gf_size_def max_degree_def
  version_bits_def reserved_bits_def date_bits_def CHAR_BIT_def seed_size_def

lemma length16:
  assumes "length (xs :: 'a list) = 16"
  obtains a0 a1 a2 a3 a4 a5 a6 a7 a8 a9 a10 a11 a12 a13 a14 a15
  where "xs = [a0, a1, a2, a3, a4, a5, a6, a7, a8, a9, a10, a11, a12, a13, a14, a15]"
  using assms by (auto simp: eval_nat_numeral length_Suc_conv)

lemma pack_closed_explicit:
  "pack_payload ver res q [s0, s1, s2, s3, s4, s5, s6, s7, s8, s9, s10, s11, s12, s13, s14, s15]
     = Inr (\<lparr>coeff = packed ver res q [s0, s1, s2, s3, s4, s5, s6, s7, s8, s9, s10, s11, s12, s13, s14, s15],
             degree = 13\<rparr>, 0)"
  by (simp add: pack_simps packed_def del: take_bit_Suc_0)

lemma pack_closed:
  assumes "length bytes = 16"
  shows "pack_payload ver res q bytes = Inr (\<lparr>coeff = packed ver res q bytes, degree = 13\<rparr>, 0)"
proof -
  obtain a0 a1 a2 a3 a4 a5 a6 a7 a8 a9 a10 a11 a12 a13 a14 a15
    where "bytes = [a0, a1, a2, a3, a4, a5, a6, a7, a8, a9, a10, a11, a12, a13, a14, a15]"
    using assms by (rule length16)
  then show ?thesis
    by (simp only: pack_closed_explicit)
qed

lemma upt8: "[0..<8] = [0, 1, 2, 3, 4, 5, 6, 7]"
  by code_simp

lemma upt32: "[0..<32] = [0, 1, 2, 3, 4, 5, 6, 7, 8, 9, 10, 11, 12, 13, 14, 15, 16, 17, 18, 19,
    20, 21, 22, 23, 24, 25, 26, 27, 28, 29, 30, 31]"
  by code_simp

lemma word8_eqI:
  fixes a b :: u8
  assumes "list_all (\<lambda>n. bit a n = bit b n) [0, 1, 2, 3, 4, 5, 6, 7]"
  shows "a = b"
proof (rule bit_word_eqI)
  fix n
  assume "n < LENGTH(8)"
  then have "n \<in> set [0..<8]"
    by simp
  then show "bit a n = bit b n"
    using assms unfolding upt8 list_all_iff by blast
qed

lemma word32_eqI:
  fixes a b :: u32
  assumes "list_all (\<lambda>n. bit a n = bit b n) [0, 1, 2, 3, 4, 5, 6, 7, 8, 9, 10, 11, 12, 13, 14,
    15, 16, 17, 18, 19, 20, 21, 22, 23, 24, 25, 26, 27, 28, 29, 30, 31]"
  shows "a = b"
proof (rule bit_word_eqI)
  fix n
  assume "n < LENGTH(32)"
  then have "n \<in> set [0..<32]"
    by simp
  then show "bit a n = bit b n"
    using assms unfolding upt32 list_all_iff by blast
qed

lemmas bit_eval = bit_piece bit_or_iff bit_take_bit_iff bit_push_bit_iff
  numeral_2_eq_2 [symmetric] numeral_3_eq_3 [symmetric]

lemma unpack_byte_0:
  "read_data \<lparr>coeff = (packed ver res q bytes)[0 := c], degree = d\<rparr> 26 (0 :: u8) 8
     = Inr (34, bytes ! 0)"
  by (simp add: unpack_simps packed_def) (rule word8_eqI, simp add: bit_eval)

lemma unpack_byte_1:
  "read_data \<lparr>coeff = (packed ver res q bytes)[0 := c], degree = d\<rparr> 34 (0 :: u8) 8
     = Inr (42, bytes ! 1)"
  by (simp add: unpack_simps packed_def) (rule word8_eqI, simp add: bit_eval)

lemma unpack_byte_2:
  "read_data \<lparr>coeff = (packed ver res q bytes)[0 := c], degree = d\<rparr> 42 (0 :: u8) 8
     = Inr (50, bytes ! 2)"
  by (simp add: unpack_simps packed_def) (rule word8_eqI, simp add: bit_eval)

lemma unpack_byte_3:
  "read_data \<lparr>coeff = (packed ver res q bytes)[0 := c], degree = d\<rparr> 50 (0 :: u8) 8
     = Inr (58, bytes ! 3)"
  by (simp add: unpack_simps packed_def) (rule word8_eqI, simp add: bit_eval)

lemma unpack_byte_4:
  "read_data \<lparr>coeff = (packed ver res q bytes)[0 := c], degree = d\<rparr> 58 (0 :: u8) 8
     = Inr (66, bytes ! 4)"
  by (simp add: unpack_simps packed_def) (rule word8_eqI, simp add: bit_eval)

lemma unpack_byte_5:
  "read_data \<lparr>coeff = (packed ver res q bytes)[0 := c], degree = d\<rparr> 66 (0 :: u8) 8
     = Inr (74, bytes ! 5)"
  by (simp add: unpack_simps packed_def) (rule word8_eqI, simp add: bit_eval)

lemma unpack_byte_6:
  "read_data \<lparr>coeff = (packed ver res q bytes)[0 := c], degree = d\<rparr> 74 (0 :: u8) 8
     = Inr (82, bytes ! 6)"
  by (simp add: unpack_simps packed_def) (rule word8_eqI, simp add: bit_eval)

lemma unpack_byte_7:
  "read_data \<lparr>coeff = (packed ver res q bytes)[0 := c], degree = d\<rparr> 82 (0 :: u8) 8
     = Inr (90, bytes ! 7)"
  by (simp add: unpack_simps packed_def) (rule word8_eqI, simp add: bit_eval)

lemma unpack_byte_8:
  "read_data \<lparr>coeff = (packed ver res q bytes)[0 := c], degree = d\<rparr> 90 (0 :: u8) 8
     = Inr (98, bytes ! 8)"
  by (simp add: unpack_simps packed_def) (rule word8_eqI, simp add: bit_eval)

lemma unpack_byte_9:
  "read_data \<lparr>coeff = (packed ver res q bytes)[0 := c], degree = d\<rparr> 98 (0 :: u8) 8
     = Inr (106, bytes ! 9)"
  by (simp add: unpack_simps packed_def) (rule word8_eqI, simp add: bit_eval)

lemma unpack_byte_10:
  "read_data \<lparr>coeff = (packed ver res q bytes)[0 := c], degree = d\<rparr> 106 (0 :: u8) 8
     = Inr (114, bytes ! 10)"
  by (simp add: unpack_simps packed_def) (rule word8_eqI, simp add: bit_eval)

lemma unpack_byte_11:
  "read_data \<lparr>coeff = (packed ver res q bytes)[0 := c], degree = d\<rparr> 114 (0 :: u8) 8
     = Inr (122, bytes ! 11)"
  by (simp add: unpack_simps packed_def) (rule word8_eqI, simp add: bit_eval)

lemma unpack_byte_12:
  "read_data \<lparr>coeff = (packed ver res q bytes)[0 := c], degree = d\<rparr> 122 (0 :: u8) 8
     = Inr (130, bytes ! 12)"
  by (simp add: unpack_simps packed_def) (rule word8_eqI, simp add: bit_eval)

lemma unpack_byte_13:
  "read_data \<lparr>coeff = (packed ver res q bytes)[0 := c], degree = d\<rparr> 130 (0 :: u8) 8
     = Inr (138, bytes ! 13)"
  by (simp add: unpack_simps packed_def) (rule word8_eqI, simp add: bit_eval)

lemma unpack_byte_14:
  "read_data \<lparr>coeff = (packed ver res q bytes)[0 := c], degree = d\<rparr> 138 (0 :: u8) 8
     = Inr (146, bytes ! 14)"
  by (simp add: unpack_simps packed_def) (rule word8_eqI, simp add: bit_eval)

lemma unpack_byte_15:
  "read_data \<lparr>coeff = (packed ver res q bytes)[0 := c], degree = d\<rparr> 146 (0 :: u8) 8
     = Inr (154, bytes ! 15)"
  by (simp add: unpack_simps packed_def) (rule word8_eqI, simp add: bit_eval)

lemma unpack_version:
  "read_data \<lparr>coeff = (packed ver res q bytes)[0 := c], degree = d\<rparr> 11 (0 :: u32) 3
     = Inr (14, take_bit 3 ver)"
  by (simp add: unpack_simps packed_def) (rule word32_eqI, simp add: bit_eval)

lemma unpack_reserved:
  "read_data \<lparr>coeff = (packed ver res q bytes)[0 := c], degree = d\<rparr> 14 (0 :: u32) 2
     = Inr (16, take_bit 2 res)"
  by (simp add: unpack_simps packed_def) (rule word32_eqI, simp add: bit_eval)

lemma unpack_date:
  "read_data \<lparr>coeff = (packed ver res q bytes)[0 := c], degree = d\<rparr> 16 (0 :: u32) 10
     = Inr (26, (take_bit 10 q OR push_bit 10 (take_bit 2 res)) OR push_bit 12 (take_bit 2 ver))"
  by (simp add: unpack_simps packed_def) (rule word32_eqI, simp add: bit_eval)

section \<open>Verification at the root 1\<close>

lemma xorsum_simps [simp]:
  "xorsum [] = 0" "xorsum (c # cs) = c XOR xorsum cs"
  by (simp_all add: xorsum_def)

lemma xorsum_append: "xorsum (xs @ ys) = xorsum xs XOR xorsum ys"
  by (induction xs) (simp_all add: xor.assoc)

lemma xorsum_replicate_zero [simp]: "xorsum (replicate n 0) = 0"
  by (induction n) simp_all

lemma xor_cancel_left: "a XOR (a XOR b) = (b :: gf_elem)"
  by (simp flip: xor.assoc)

lemma xor_eq_zero_iff: "a XOR v = 0 \<longleftrightarrow> v = (a :: gf_elem)"
proof
  assume "a XOR v = 0"
  then have "a XOR (a XOR v) = a"
    by simp
  then show "v = a"
    by (simp only: xor_cancel_left)
next
  assume "v = a"
  then show "a XOR v = 0"
    by simp
qed

lemma xorsum_update:
  "e < length cs \<Longrightarrow> xorsum (cs[e := v]) = xorsum cs XOR cs ! e XOR v"
proof (induction cs arbitrary: e)
  case Nil
  then show ?case by simp
next
  case (Cons c cs)
  show ?case
  proof (cases e)
    case 0
    have "(c XOR xorsum cs) XOR c XOR v = v XOR xorsum cs"
      by (simp add: xor.assoc xor.commute xor.left_commute xor_cancel_left)
    with 0 show ?thesis
      by simp
  next
    case (Suc k)
    with Cons.IH [of k] Cons.prems show ?thesis
      by (simp add: xor.assoc)
  qed
qed

lemma gf_mul_loop_zero: "gf_mul_loop n a 0 r = r"
  by (induction n arbitrary: a) simp_all

lemma gf_mul_one [simp]: "gf_mul a 1 = a"
proof -
  have "gf_mul_loop 11 (ucast a) 1 0 = (ucast a :: u32)"
    by (simp add: eval_nat_numeral gf_mul_loop_zero)
  moreover have "ucast (ucast a :: u32) = a"
    by (rule bit_word_eqI) (simp add: bit_simps)
  ultimately show ?thesis
    by (simp add: gf_mul_def)
qed

lemma rs_roots_one [simp]: "rs_roots = [1]"
  by (simp add: rs_roots_def check_digits_def)

lemma horner_one: "foldr (\<lambda>c acc. gf_add acc c) cs 0 = xorsum cs"
  by (induction cs) (simp_all add: gf_add_def xor.commute)

lemma poly_eval_one: "poly_eval p 1 = xorsum (take (nat (degree p + 1)) (coeff p))"
  by (simp add: poly_eval_def horner_one)

lemma rs_check_iff: "rs_check p \<longleftrightarrow> xorsum (take (nat (degree p + 1)) (coeff p)) = 0"
  by (simp add: rs_check_def poly_eval_one)

lemma highest_nonzero_bounds: "- 1 \<le> highest_nonzero cs n \<and> highest_nonzero cs n < int n"
  by (induction n) auto

lemma highest_nonzero_above:
  "highest_nonzero cs n < int i \<Longrightarrow> i < n \<Longrightarrow> cs ! i = 0"
proof (induction n)
  case 0
  then show ?case by simp
next
  case (Suc n)
  then show ?case
    by (cases "i = n") (auto split: if_splits)
qed

lemma highest_nonzero_ge:
  "e < n \<Longrightarrow> cs ! e \<noteq> 0 \<Longrightarrow> int e \<le> highest_nonzero cs n"
  using highest_nonzero_above [of cs n e] by (cases "highest_nonzero cs n < int e") auto

lemma xorsum_zero_tail:
  assumes "\<And>i. k \<le> i \<Longrightarrow> i < length cs \<Longrightarrow> cs ! i = 0"
  shows "xorsum (take k cs) = xorsum cs"
proof -
  have "drop k cs = replicate (length cs - k) 0"
    by (rule nth_equalityI) (simp_all add: assms)
  then have "xorsum (drop k cs) = 0"
    by simp
  moreover have "xorsum cs = xorsum (take k cs) XOR xorsum (drop k cs)"
    by (simp flip: xorsum_append)
  ultimately show ?thesis
    by simp
qed

lemma rs_check_set_degree:
  assumes "length cs = phrase_words"
  shows "rs_check (set_degree \<lparr>coeff = cs, degree = d\<rparr>) \<longleftrightarrow> xorsum cs = 0"
proof -
  let ?h = "highest_nonzero cs phrase_words"
  have "xorsum (take (nat (?h + 1)) cs) = xorsum cs"
  proof (rule xorsum_zero_tail)
    fix i
    assume "nat (?h + 1) \<le> i" "i < length cs"
    then show "cs ! i = 0"
      using assms highest_nonzero_above [of cs phrase_words i] by auto
  qed
  then show ?thesis
    by (simp add: rs_check_iff set_degree_def)
qed

text \<open>With a nonzero entry at \<open>e\<close> when the degree is fixed, any value stored at \<open>e\<close> afterwards
  is inside the range that verification evaluates.\<close>

lemma rs_check_update_after_set_degree:
  assumes len: "length cs = phrase_words" and e: "e < phrase_words" and nz: "cs ! e \<noteq> 0"
  shows "rs_check ((set_degree \<lparr>coeff = cs, degree = d\<rparr>)\<lparr>coeff := cs[e := v]\<rparr>)
           \<longleftrightarrow> v = xorsum (cs[e := 0])"
proof -
  let ?h = "highest_nonzero cs phrase_words"
  have h: "int e \<le> ?h"
    using e nz by (rule highest_nonzero_ge)
  have "xorsum (take (nat (?h + 1)) (cs[e := v])) = xorsum (cs[e := v])"
  proof (rule xorsum_zero_tail)
    fix i
    assume i: "nat (?h + 1) \<le> i" "i < length (cs[e := v])"
    then have "i \<noteq> e" using h by auto
    moreover have "cs ! i = 0"
      using i len highest_nonzero_above [of cs phrase_words i] by auto
    ultimately show "cs[e := v] ! i = 0"
      by simp
  qed
  moreover have "xorsum (cs[e := v]) = xorsum (cs[e := 0]) XOR v"
    using e len by (simp add: xorsum_update xor.assoc)
  moreover have "xorsum (cs[e := 0]) XOR v = 0 \<longleftrightarrow> v = xorsum (cs[e := 0])"
    by (rule xor_eq_zero_iff)
  ultimately show ?thesis
    by (simp add: rs_check_iff set_degree_def)
qed

lemma erasure_scan_finds:
  assumes "\<And>v. rs_check (p\<lparr>coeff := (coeff p)[e := v]\<rparr>) \<longleftrightarrow> v = t"
    and "i \<le> unat t"
  shows "erasure_scan wl p e i = (p\<lparr>coeff := (coeff p)[e := t]\<rparr>, get_word wl (unat t))"
  using assms
proof (induction "unat t - i" arbitrary: i p)
  case 0
  then have i: "i = unat t" by simp
  have "unat t < 2048"
    using unsigned_less [of t] by simp
  moreover have "(of_nat i :: gf_elem) = t"
    using i by simp
  ultimately show ?case
    using 0(2) [of "of_nat i"] i
    by (subst erasure_scan.simps) (simp add: gf_elements_def)
next
  case (Suc k)
  then have lt: "i < unat t" by simp
  have t: "unat t < 2048"
    using unsigned_less [of t] by simp
  have "unat (of_nat i :: gf_elem) = i"
    using lt t by (simp add: unat_of_nat)
  then have "(of_nat i :: gf_elem) \<noteq> t"
    using lt by auto
  let ?p1 = "p\<lparr>coeff := (coeff p)[e := of_nat i]\<rparr>"
  have nc: "\<not> rs_check ?p1"
    using Suc.prems(1) \<open>of_nat i \<noteq> t\<close> by simp
  have "erasure_scan wl ?p1 e (i + 1) = (?p1\<lparr>coeff := (coeff ?p1)[e := t]\<rparr>, get_word wl (unat t))"
  proof (rule Suc.hyps(1))
    show "k = unat t - (i + 1)" using Suc.hyps(2) by simp
    show "i + 1 \<le> unat t" using lt by simp
    show "rs_check (?p1\<lparr>coeff := (coeff ?p1)[e := v]\<rparr>) \<longleftrightarrow> v = t" for v
      using Suc.prems(1) [of v] by simp
  qed
  then show ?case
    using nc lt t by (subst erasure_scan.simps) (simp add: gf_elements_def)
qed

section \<open>Tokens\<close>

lemma find_char_none:
  assumes "c \<notin> set w"
  shows "find_char (pre @ w) c (length pre) = None"
proof -
  have "\<forall>x\<in>set w. x \<noteq> c"
    using assms by auto
  then have "length (takeWhile (\<lambda>x. x \<noteq> c) w) = length w"
    by (simp add: takeWhile_eq_all_conv [THEN iffD2])
  then show ?thesis
    by (simp add: find_char_def Let_def)
qed

lemma find_char_some:
  assumes "c \<notin> set w"
  shows "find_char (pre @ w @ c # rest) c (length pre) = Some (length pre + length w)"
proof -
  have "takeWhile (\<lambda>x. x \<noteq> c) (w @ c # rest) = takeWhile (\<lambda>x. x \<noteq> c) w"
    by (rule takeWhile_tail) simp
  also have "\<dots> = w"
    using assms by (auto simp: takeWhile_eq_all_conv)
  finally show ?thesis
    by (simp add: find_char_def Let_def)
qed

lemma substr_middle: "substr (pre @ w @ rest) (length pre) (length w) = w"
  by (simp add: substr_def)

lemma substr_end: "substr (pre @ w) (length pre) (length w) = w"
  by (simp add: substr_def)

lemma join_sp_Cons: "ws \<noteq> [] \<Longrightarrow> join_sp (w # ws) = w @ CHR '' '' # join_sp ws"
  by (cases ws) simp_all

lemma join_sp_nonempty: "ws \<noteq> [] \<Longrightarrow> list_all spaceless ws \<Longrightarrow> join_sp ws \<noteq> []"
  by (cases ws rule: join_sp.cases) (simp_all add: spaceless_def)

lemma parse_loop_join:
  assumes "ws \<noteq> []" and "list_all spaceless ws"
  shows "parse_loop wl (pre @ join_sp ws) (length pre) word_count err msg
           = scan_words wl ws word_count err msg"
  using assms
proof (induction ws arbitrary: pre word_count err msg)
  case Nil
  then show ?case by simp
next
  case (Cons w ws)
  have w: "CHR '' '' \<notin> set w"
    using Cons.prems(2) by (simp add: spaceless_def)
  show ?case
  proof (cases "ws = []")
    case True
    then show ?thesis
      using w
      by (subst parse_loop.simps)
         (auto simp: find_char_none substr_end Let_def)
  next
    case False
    then have j: "join_sp (w # ws) = w @ CHR '' '' # join_sp ws"
      by (rule join_sp_Cons)
    have ne: "join_sp ws \<noteq> []"
      using False Cons.prems(2) by (simp add: join_sp_nonempty)
    have IH: "parse_loop wl (pre @ w @ CHR '' '' # join_sp ws) (Suc (length pre + length w))
                wc' err' msg' = scan_words wl ws wc' err' msg'" for wc' err' msg'
      using Cons.IH [OF False, of "pre @ w @ [CHR '' '']" wc' err' msg'] Cons.prems(2) by simp
    have lt: "Suc (length pre + length w) < length (pre @ w @ CHR '' '' # join_sp ws)"
      using ne by (cases "join_sp ws") simp_all
    show ?thesis
      unfolding j
      apply (subst parse_loop.simps)
      using IH lt
      apply (auto simp: find_char_some [OF w] substr_middle Let_def)
      done
  qed
qed

lemma wordlist_find_absent: "w \<notin> set wl \<Longrightarrow> wordlist_find wl w k = - 1"
  by (induction wl arbitrary: k) auto

lemma wordlist_find_nth:
  "distinct wl \<Longrightarrow> i < length wl \<Longrightarrow> wordlist_find wl (wl ! i) k = k + int i"
proof (induction wl arbitrary: i k)
  case Nil
  then show ?case by simp
next
  case (Cons x xs)
  show ?case
  proof (cases i)
    case 0
    then show ?thesis by simp
  next
    case (Suc j)
    then have "xs ! j \<in> set xs"
      using Cons.prems(2) by simp
    then have "x \<noteq> xs ! j"
      using Cons.prems(1) by auto
    then show ?thesis
      using Suc Cons.IH [of j "k + 1"] Cons.prems by simp
  qed
qed

lemma wordlist_parse_nth:
  "distinct wl \<Longrightarrow> i < length wl \<Longrightarrow> wordlist_parse wl (wl ! i) = int i"
  by (simp add: wordlist_parse_def wordlist_find_nth)

lemma wordlist_parse_absent: "w \<notin> set wl \<Longrightarrow> wordlist_parse wl w = - 1"
  by (simp add: wordlist_parse_def wordlist_find_absent)

lemma wordlist_parse_known:
  assumes "distinct wl" and "w \<in> set wl"
  shows "0 \<le> wordlist_parse wl w \<and> wordlist_parse wl w < int (length wl)
         \<and> wl ! nat (wordlist_parse wl w) = w"
proof -
  obtain i where "i < length wl" "wl ! i = w"
    using assms(2) by (auto simp: in_set_conv_nth)
  then show ?thesis
    using wordlist_parse_nth [OF assms(1), of i] by auto
qed

lemma wordlist_okD:
  assumes "wordlist_ok wl"
  shows "length wl = 2048" and "distinct wl" and "erasure \<notin> set wl"
    and "w \<in> set wl \<Longrightarrow> spaceless w"
  using assms by (auto simp: wordlist_ok_def gf_elements_def spaceless_def list_all_iff)

lemma erasure_spaceless: "spaceless erasure"
  by (simp add: spaceless_def erasure_def)

lemma word_coeff_nth:
  assumes "wordlist_ok wl"
  shows "word_coeff wl (get_word wl (unat (c :: gf_elem))) = c"
proof -
  have "unat c < 2048"
    using unsigned_less [of c] by simp
  then have "wordlist_parse wl (wl ! unat c) = int (unat c)"
    using wordlist_okD(1,2) [OF assms] by (simp add: wordlist_parse_nth)
  then show ?thesis
    by (simp add: word_coeff_def get_word_def)
qed

lemma get_word_coeff:
  assumes "wordlist_ok wl" and "w \<in> set wl"
  shows "get_word wl (unat (word_coeff wl w)) = w"
proof -
  let ?i = "wordlist_parse wl w"
  have i: "0 \<le> ?i" "?i < 2048" "wl ! nat ?i = w"
    using wordlist_parse_known [OF wordlist_okD(2) [OF assms(1)] assms(2)]
      wordlist_okD(1) [OF assms(1)] by auto
  then have "unat (word_of_int ?i :: gf_elem) = nat ?i"
    by (simp add: unat_eq_nat_uint uint_word_of_int take_bit_eq_mod)
  then show ?thesis
    using i by (simp add: word_coeff_def get_word_def)
qed

lemma word_coeff_inj:
  assumes "wordlist_ok wl" and "v \<in> set wl" and "w \<in> set wl"
    and "word_coeff wl v = word_coeff wl w"
  shows "v = w"
proof -
  have "v = get_word wl (unat (word_coeff wl v))"
    by (rule get_word_coeff [OF assms(1,2), symmetric])
  also have "\<dots> = get_word wl (unat (word_coeff wl w))"
    by (simp only: assms(4))
  also have "\<dots> = w"
    by (rule get_word_coeff [OF assms(1,3)])
  finally show ?thesis .
qed

lemma word_coeff_erasure:
  assumes "wordlist_ok wl"
  shows "word_coeff wl erasure = 2047"
  using wordlist_okD(3) [OF assms] by (simp add: word_coeff_def wordlist_parse_absent)

lemma get_word_in_wl:
  assumes "wordlist_ok wl"
  shows "get_word wl (unat (c :: gf_elem)) \<in> set wl"
proof -
  have "unat c < 2048"
    using unsigned_less [of c] by simp
  then show ?thesis
    using wordlist_okD(1) [OF assms] by (simp add: get_word_def)
qed

lemma scan_words_known:
  assumes "wordlist_ok wl" and "set xs \<subseteq> set wl"
    and "word_count + length xs \<le> phrase_words" and "length msg = phrase_words"
  shows "scan_words wl (xs @ ys) word_count err msg =
           scan_words wl ys (word_count + length xs) err
             (take word_count msg @ map (word_coeff wl) xs @ drop (word_count + length xs) msg)"
  using assms(2-4)
proof (induction xs arbitrary: word_count msg)
  case Nil
  then show ?case by simp
next
  case (Cons x xs)
  have x: "x \<in> set wl" using Cons.prems(1) by simp
  then have idx: "wordlist_parse wl x \<noteq> - 1"
    using wordlist_parse_known [OF wordlist_okD(2) [OF assms(1)] x] by auto
  have wc: "word_count < phrase_words" "word_count < length msg"
    using Cons.prems(2,3) by simp_all
  let ?msg = "msg[word_count := word_of_int (wordlist_parse wl x)]"
  have "scan_words wl ((x # xs) @ ys) word_count err msg =
          scan_words wl (xs @ ys) (word_count + 1) err ?msg"
    using idx wc by simp
  also have "\<dots> = scan_words wl ys (word_count + 1 + length xs) err
      (take (word_count + 1) ?msg @ map (word_coeff wl) xs @ drop (word_count + 1 + length xs) ?msg)"
    using Cons.prems by (intro Cons.IH) simp_all
  also have "take (word_count + 1) ?msg = take word_count msg @ [word_coeff wl x]"
    using wc by (simp add: take_Suc_conv_app_nth word_coeff_def)
  also have "drop (word_count + 1 + length xs) ?msg = drop (word_count + 1 + length xs) msg"
    by simp
  finally show ?case
    by simp
qed

lemma scan_words_valid:
  assumes "wordlist_ok wl" and "set ws \<subseteq> set wl" and "length ws = phrase_words"
  shows "scan_words wl ws 0 (- 1) (replicate phrase_words 0)
           = Inr (phrase_words, - 1, map (word_coeff wl) ws)"
  using scan_words_known [OF assms(1,2), of 0 "replicate phrase_words 0" "[]" "- 1"] assms(3)
  by simp

text \<open>The constructor with the initial polynomial written out; \<open>set_degree\<close> overwrites the
  degree it finds.\<close>

lemma parse_unfold:
  "parse kdf wl phrase =
    (case parse_loop wl phrase 0 0 (- 1) (replicate phrase_words 0) of
       Inl e \<Rightarrow> Inl e
     | Inr (word_count, err, msg) \<Rightarrow>
         if word_count \<noteq> phrase_words then Inl WrongTokenCount
         else
           (case correct_or_check wl (set_degree \<lparr>coeff = msg, degree = 0\<rparr>) err of
              Inl e \<Rightarrow> Inl e
            | Inr (p, corr) \<Rightarrow> decode kdf p corr))"
  by (simp add: parse_def empty_poly_def set_degree_def split: sum.splits prod.splits)

section \<open>The quantized date and the generated seed\<close>

lemma uint_date_mask: "uint date_mask = 1023"
  by (simp add: date_mask_def date_bits_def)

lemma uint_quantize: "uint (quantize d) = ((d - epoch) div time_step) mod 1024"
proof -
  have "((d - epoch) div time_step) AND 1023 = take_bit 10 ((d - epoch) div time_step)"
    by (simp add: take_bit_eq_mask mask_eq_exp_minus_1)
  also have "\<dots> = ((d - epoch) div time_step) mod 1024"
    by (simp add: take_bit_eq_mod)
  finally have "quantize d = word_of_int (((d - epoch) div time_step) mod 1024)"
    by (simp add: quantize_def uint_date_mask)
  moreover have "0 \<le> ((d - epoch) div time_step) mod 1024"
    "((d - epoch) div time_step) mod 1024 < 1024"
    by simp_all
  ultimately show ?thesis
    by (simp add: uint_word_of_int take_bit_eq_mod)
qed

lemma take_bit_quantize: "take_bit 10 (quantize d) = quantize d"
proof -
  have "uint (take_bit 10 (quantize d)) = take_bit 10 (uint (quantize d))"
    by (simp only: unsigned_take_bit_eq)
  also have "\<dots> = uint (quantize d)"
    by (simp add: uint_quantize take_bit_eq_mod)
  finally show ?thesis
    by (rule word_uint_eqI)
qed

lemma generate_ok:
  assumes "epoch \<le> d" and "length rnd = seed_size"
  shows "generate kdf d rnd =
           Inr \<lparr>seed = rnd, key = derive_key kdf rnd 0 (quantize d),
                date = epoch + uint (quantize d) * time_step, version = 0, reserved = 0,
                correction = [],
                message = rs_encode \<lparr>coeff = packed 0 0 (quantize d) rnd, degree = 13\<rparr>\<rparr>"
  using assms by (simp add: generate_def Let_def pack_closed seed_size_def)

section \<open>Decoding a packed polynomial; splitting and joining\<close>

lemma read_bytes_numeral:
  "read_bytes poly used_bits (numeral k) =
     (case read_data poly used_bits (0 :: u8) CHAR_BIT of
        Inl e \<Rightarrow> Inl e
      | Inr (used1, b) \<Rightarrow>
        (case read_bytes poly used1 (pred_numeral k) of
           Inl e \<Rightarrow> Inl e
         | Inr (used2, bs) \<Rightarrow> Inr (used2, b # bs)))"
  by (simp add: numeral_eq_Suc)

lemmas unpack_bytes = unpack_byte_0 unpack_byte_1 unpack_byte_2 unpack_byte_3 unpack_byte_4
  unpack_byte_5 unpack_byte_6 unpack_byte_7 unpack_byte_8 unpack_byte_9 unpack_byte_10
  unpack_byte_11 unpack_byte_12 unpack_byte_13 unpack_byte_14 unpack_byte_15

lemma read_bytes_packed:
  assumes "length bytes = 16"
  shows "read_bytes \<lparr>coeff = (packed ver res q bytes)[0 := c], degree = d\<rparr> 26 seed_size
           = Inr (154, bytes)"
proof -
  obtain a0 a1 a2 a3 a4 a5 a6 a7 a8 a9 a10 a11 a12 a13 a14 a15
    where b: "bytes = [a0, a1, a2, a3, a4, a5, a6, a7, a8, a9, a10, a11, a12, a13, a14, a15]"
    using assms by (rule length16)
  have "read_bytes \<lparr>coeff = (packed ver res q bytes)[0 := c], degree = d\<rparr> 26 seed_size
          = Inr (154, [bytes ! 0, bytes ! 1, bytes ! 2, bytes ! 3, bytes ! 4, bytes ! 5,
              bytes ! 6, bytes ! 7, bytes ! 8, bytes ! 9, bytes ! 10, bytes ! 11, bytes ! 12,
              bytes ! 13, bytes ! 14, bytes ! 15])"
    by (simp add: seed_size_def read_bytes_numeral CHAR_BIT_def unpack_bytes)
  also have "[bytes ! 0, bytes ! 1, bytes ! 2, bytes ! 3, bytes ! 4, bytes ! 5,
              bytes ! 6, bytes ! 7, bytes ! 8, bytes ! 9, bytes ! 10, bytes ! 11, bytes ! 12,
              bytes ! 13, bytes ! 14, bytes ! 15] = bytes"
    by (simp add: b)
  finally show ?thesis .
qed

lemma decode_packed:
  assumes "length bytes = 16"
  shows "decode kdf \<lparr>coeff = (packed ver res q bytes)[0 := c], degree = d\<rparr> corr =
           Inr \<lparr>seed = bytes,
                key = derive_key kdf bytes (take_bit 3 ver) (leaked_date ver res q),
                date = epoch + uint (leaked_date ver res q) * time_step,
                version = take_bit 3 ver, reserved = take_bit 2 res, correction = corr,
                message = \<lparr>coeff = (packed ver res q bytes)[0 := c], degree = d\<rparr>\<rparr>"
  by (simp add: decode_def checksum_size_def gf_size_def check_digits_def version_bits_def
      reserved_bits_def date_bits_def total_bits_def phrase_words_def max_degree_def
      unpack_version unpack_reserved unpack_date read_bytes_packed [OF assms] leaked_date_def)

lemma read_data_coeff:
  "coeff p = coeff p' \<Longrightarrow> read_data p used_bits val bits = read_data p' used_bits val bits"
proof (induction p used_bits val bits rule: read_data.induct)
  case (1 poly used_bits val bits)
  show ?case
    apply (subst read_data.simps)
    apply (subst (2) read_data.simps)
    using 1 apply (simp add: Let_def)
    done
qed

lemma read_bytes_coeff:
  "coeff p = coeff p' \<Longrightarrow> read_bytes p used_bits n = read_bytes p' used_bits n"
  by (induction n arbitrary: used_bits)
     (auto simp: read_data_coeff [of p p'] split: sum.splits)

lemma decode_coeff:
  assumes "coeff p = coeff p'" and "decode kdf p corr = Inr s"
  shows "decode kdf p' corr' = Inr (s\<lparr>correction := corr', message := p'\<rparr>)"
  using assms(2)
  by (auto simp: decode_def read_data_coeff [OF assms(1)] read_bytes_coeff [OF assms(1)]
      split: sum.splits if_splits)

lemma split_sp_nonempty [simp]: "split_sp s \<noteq> []"
  by (induction s) simp_all

lemma join_split: "join_sp (split_sp s) = s"
proof (induction s)
  case Nil
  then show ?case by simp
next
  case (Cons c s)
  obtain w ws where sp: "split_sp s = w # ws"
    by (cases "split_sp s") simp_all
  with Cons show ?case
    by (cases ws) (auto simp: join_sp_Cons)
qed

lemma split_sp_no_space: "w \<in> set (split_sp s) \<Longrightarrow> CHR '' '' \<notin> set w"
proof (induction s arbitrary: w)
  case Nil
  then show ?case by simp
next
  case (Cons c s)
  obtain v vs where sp: "split_sp s = v # vs"
    by (cases "split_sp s") simp_all
  with Cons show ?case
    by (auto split: if_splits)
qed

lemma split_sp_word: "CHR '' '' \<notin> set w \<Longrightarrow> split_sp (w @ CHR '' '' # s) = w # split_sp s"
  by (induction w) auto

lemma split_sp_single: "CHR '' '' \<notin> set w \<Longrightarrow> split_sp w = [w]"
  by (induction w) auto

lemma split_join:
  "ws \<noteq> [] \<Longrightarrow> list_all spaceless ws \<Longrightarrow> split_sp (join_sp ws) = ws"
proof (induction ws rule: join_sp.induct)
  case 1
  then show ?case by simp
next
  case (2 w)
  then show ?case
    by (simp add: split_sp_single spaceless_def)
next
  case (3 w v vs)
  then show ?case
    by (simp add: split_sp_word spaceless_def)
qed

section \<open>Parsing a phrase of words\<close>

lemma set_degree_coeff [simp]: "coeff (set_degree p) = coeff p"
  by (simp add: set_degree_def)

lemma parse_words:
  assumes ok: "wordlist_ok wl" and len: "length ws = phrase_words" and known: "set ws \<subseteq> set wl"
  shows "parse kdf wl (join_sp ws) =
           (if xorsum (map (word_coeff wl) ws) = 0
            then decode kdf (set_degree \<lparr>coeff = map (word_coeff wl) ws, degree = 0\<rparr>) []
            else Inl ChecksumMismatch)"
proof -
  have ne: "ws \<noteq> []"
    using len by (auto simp: phrase_words_def)
  have sp: "list_all spaceless ws"
    using known wordlist_okD(4) [OF ok] by (auto simp: list_all_iff)
  have "parse_loop wl ([] @ join_sp ws) (length ([] :: string)) 0 (- 1) (replicate phrase_words 0)
          = scan_words wl ws 0 (- 1) (replicate phrase_words 0)"
    using ne sp by (rule parse_loop_join)
  then have loop: "parse_loop wl (join_sp ws) 0 0 (- 1) (replicate phrase_words 0)
          = Inr (phrase_words, - 1, map (word_coeff wl) ws)"
    by (simp add: scan_words_valid [OF ok known len])
  have chk: "rs_check (set_degree \<lparr>coeff = map (word_coeff wl) ws, degree = 0\<rparr>)
               \<longleftrightarrow> xorsum (map (word_coeff wl) ws) = 0"
    using len by (simp add: rs_check_set_degree)
  show ?thesis
    by (simp add: parse_unfold loop correct_or_check_def chk)
qed

lemma scan_words_erasure:
  assumes ok: "wordlist_ok wl" and xs: "set xs \<subseteq> set wl" and ys: "set ys \<subseteq> set wl"
    and len: "length xs + 1 + length ys = phrase_words"
  shows "scan_words wl (xs @ erasure # ys) 0 (- 1) (replicate phrase_words 0)
           = Inr (phrase_words, int (length xs), map (word_coeff wl) (xs @ erasure # ys))"
proof -
  let ?n = "length xs"
  let ?msg0 = "replicate phrase_words (0 :: gf_elem)"
  let ?msg1 = "map (word_coeff wl) xs @ replicate (Suc (length ys)) 0"
  let ?msg2 = "map (word_coeff wl) xs @ word_coeff wl erasure # replicate (length ys) 0"
  have d: "phrase_words - ?n = Suc (length ys)"
    using len by simp
  have "scan_words wl (xs @ erasure # ys) 0 (- 1) ?msg0
          = scan_words wl (erasure # ys) ?n (- 1) ?msg1"
    using scan_words_known [OF ok xs, where word_count = 0 and msg = ?msg0
        and ys = "erasure # ys" and err = "- 1"] len
    by (simp add: d)
  also have "\<dots> = scan_words wl ys (?n + 1) (int ?n) ?msg2"
    using len wordlist_okD(3) [OF ok]
    by (simp add: wordlist_parse_absent word_coeff_def list_update_append)
  also have "\<dots> = Inr (phrase_words, int ?n, map (word_coeff wl) (xs @ erasure # ys))"
    using scan_words_known [OF ok ys, where word_count = "?n + 1" and msg = ?msg2
        and ys = "[]" and err = "int ?n"] len
    by simp
  finally show ?thesis .
qed

lemma parse_erased:
  assumes ok: "wordlist_ok wl" and len: "length ws = phrase_words" and known: "set ws \<subseteq> set wl"
    and e: "e < phrase_words"
  shows "parse kdf wl (join_sp (ws[e := erasure])) =
           decode kdf
             ((set_degree \<lparr>coeff = (map (word_coeff wl) ws)[e := 2047], degree = 0\<rparr>)
                \<lparr>coeff := (map (word_coeff wl) ws)[e := xorsum ((map (word_coeff wl) ws)[e := 0])]\<rparr>)
             (get_word wl (unat (xorsum ((map (word_coeff wl) ws)[e := 0]))))"
proof -
  let ?cs = "map (word_coeff wl) ws"
  let ?t = "xorsum (?cs[e := 0])"
  let ?p = "set_degree \<lparr>coeff = ?cs[e := 2047], degree = 0\<rparr>"
  have ne: "ws[e := erasure] \<noteq> []"
    using len by (auto simp: phrase_words_def)
  have sp: "list_all spaceless (ws[e := erasure])"
    using known wordlist_okD(4) [OF ok] erasure_spaceless
    by (auto simp: list_all_iff dest!: set_update_subset_insert [THEN subsetD])
  have split: "ws[e := erasure] = take e ws @ erasure # drop (Suc e) ws"
    using e len by (simp add: upd_conv_take_nth_drop)
  have "parse_loop wl ([] @ join_sp (ws[e := erasure])) (length ([] :: string)) 0 (- 1)
          (replicate phrase_words 0)
          = scan_words wl (ws[e := erasure]) 0 (- 1) (replicate phrase_words 0)"
    using ne sp by (rule parse_loop_join)
  also have "\<dots> = Inr (phrase_words, int (length (take e ws)),
                map (word_coeff wl) (take e ws @ erasure # drop (Suc e) ws))"
    unfolding split
  proof (rule scan_words_erasure [OF ok])
    show "set (take e ws) \<subseteq> set wl"
      using known set_take_subset [of e ws] by blast
    show "set (drop (Suc e) ws) \<subseteq> set wl"
      using known set_drop_subset [of "Suc e" ws] by blast
    show "length (take e ws) + 1 + length (drop (Suc e) ws) = phrase_words"
      using e len by simp
  qed
  also have "map (word_coeff wl) (take e ws @ erasure # drop (Suc e) ws) = ?cs[e := 2047]"
    unfolding split [symmetric] by (simp add: map_update word_coeff_erasure [OF ok])
  finally have loop: "parse_loop wl (join_sp (ws[e := erasure])) 0 0 (- 1)
      (replicate phrase_words 0) = Inr (phrase_words, int e, ?cs[e := 2047])"
    using e len by simp
  have "rs_check (?p\<lparr>coeff := (coeff ?p)[e := v]\<rparr>) \<longleftrightarrow> v = ?t" for v
    using rs_check_update_after_set_degree [where cs = "?cs[e := 2047]" and e = e and d = 0 and v = v]
      e len by simp
  then have scan: "erasure_scan wl ?p e 0 = (?p\<lparr>coeff := (coeff ?p)[e := ?t]\<rparr>, get_word wl (unat ?t))"
    by (rule erasure_scan_finds) simp
  have "spaceless (get_word wl (unat ?t))"
    using get_word_in_wl [OF ok] by (rule wordlist_okD(4) [OF ok])
  then have corr: "get_word wl (unat ?t) \<noteq> []"
    by (simp add: spaceless_def)
  show ?thesis
    by (simp add: parse_unfold loop correct_or_check_def scan corr)
qed

section \<open>Generate, print, parse\<close>

lemma length_packed [simp]: "length (packed ver res q bytes) = 14"
  by (simp add: packed_def)

lemma packed_0 [simp]: "packed ver res q bytes ! 0 = 0"
  by (simp add: packed_def)

lemma rs_encode_packed:
  "rs_encode \<lparr>coeff = packed ver res q bytes, degree = 13\<rparr> =
     \<lparr>coeff = (packed ver res q bytes)[0 := xorsum (packed ver res q bytes)], degree = 13\<rparr>"
  by (simp add: rs_encode_def poly_eval_one)

lemma xorsum_encoded: "xorsum ((packed ver res q bytes)[0 := xorsum (packed ver res q bytes)]) = 0"
  by (simp add: xorsum_update)

text \<open>The words that \<open>operator<<\<close> prints for a polynomial of degree 13.\<close>

lemma phrase_out_13:
  assumes "length (coeff (message s)) = 14" and "degree (message s) = 13"
  shows "phrase_out wl s = join_sp (map (\<lambda>c. get_word wl (unat c)) (coeff (message s)))"
  using assms by (simp add: phrase_out_def)

lemma words_of_coeffs:
  assumes ok: "wordlist_ok wl"
  shows "set (map (\<lambda>c. get_word wl (unat (c :: gf_elem))) cs) \<subseteq> set wl"
    and "map (word_coeff wl) (map (\<lambda>c. get_word wl (unat c)) cs) = cs"
  using get_word_in_wl [OF ok] by (auto simp: word_coeff_nth [OF ok] map_idI)

lemma parse_generated:
  assumes ok: "wordlist_ok wl" and len: "length rnd = seed_size" and d: "epoch \<le> date_created"
  shows "\<exists>s s'. generate kdf date_created rnd = Inr s \<and>
           parse kdf wl (phrase_out wl s) = Inr s' \<and>
           seed s = rnd \<and> version s = 0 \<and> reserved s = 0 \<and> correction s' = [] \<and>
           date s = epoch + ((date_created - epoch) div time_step mod 1024) * time_step \<and>
           seed s' = seed s \<and> version s' = version s \<and> reserved s' = reserved s \<and>
           date s' = date s \<and> key s' = key s"
proof -
  let ?q = "quantize date_created"
  let ?cs = "(packed 0 0 ?q rnd)[0 := xorsum (packed 0 0 ?q rnd)]"
  let ?ws = "map (\<lambda>c. get_word wl (unat c)) ?cs"
  let ?s = "\<lparr>seed = rnd, key = derive_key kdf rnd 0 ?q,
             date = epoch + uint ?q * time_step, version = 0, reserved = 0,
             correction = [], message = \<lparr>coeff = ?cs, degree = 13\<rparr>\<rparr>"
  have len16: "length rnd = 16"
    using len by (simp add: seed_size_def)
  have gen: "generate kdf date_created rnd = Inr ?s"
    by (simp add: generate_ok [OF d len] rs_encode_packed)
  have out: "phrase_out wl ?s = join_sp ?ws"
    by (simp add: phrase_out_13)
  have "parse kdf wl (join_sp ?ws) =
          decode kdf (set_degree \<lparr>coeff = ?cs, degree = 0\<rparr>) []"
    using words_of_coeffs [OF ok, of ?cs]
    by (subst parse_words [OF ok]) (simp_all add: phrase_words_def max_degree_def xorsum_encoded)
  also have "set_degree \<lparr>coeff = ?cs, degree = 0\<rparr>
               = \<lparr>coeff = ?cs, degree = highest_nonzero ?cs phrase_words\<rparr>"
    by (simp add: set_degree_def)
  also have "decode kdf \<dots> [] =
      Inr \<lparr>seed = rnd, key = derive_key kdf rnd (take_bit 3 0) (leaked_date 0 0 ?q),
           date = epoch + uint (leaked_date 0 0 ?q) * time_step,
           version = take_bit 3 0, reserved = take_bit 2 0, correction = [],
           message = \<lparr>coeff = ?cs, degree = highest_nonzero ?cs phrase_words\<rparr>\<rparr>"
    by (rule decode_packed [OF len16])
  also have "leaked_date 0 0 ?q = ?q"
    by (simp add: leaked_date_def take_bit_quantize)
  finally have "parse kdf wl (phrase_out wl ?s) =
      Inr \<lparr>seed = rnd, key = derive_key kdf rnd 0 ?q,
           date = epoch + uint ?q * time_step,
           version = 0, reserved = 0, correction = [],
           message = \<lparr>coeff = ?cs, degree = highest_nonzero ?cs phrase_words\<rparr>\<rparr>"
    by (simp add: out)
  with gen show ?thesis
    by (simp add: uint_quantize)
qed

section \<open>The concrete table\<close>

lemma test_word_inj:
  assumes "m < 2048" and "n < 2048" and "test_word m = test_word n"
  shows "m = n"
proof -
  have bits: "bit m i = bit n i" if "i < 11" for i
  proof -
    have "(if bit m i then CHR ''b'' else CHR ''a'') = (if bit n i then CHR ''b'' else CHR ''a'')"
      using assms(3) that by (simp add: test_word_def)
    then show ?thesis
      by (simp split: if_splits)
  qed
  have "take_bit 11 m = take_bit 11 n"
    by (rule bit_eqI) (auto simp: bit_take_bit_iff bits)
  moreover have "take_bit 11 m = m" "take_bit 11 n = n"
    using assms(1,2) by (simp_all add: take_bit_nat_eq_self)
  ultimately show ?thesis
    by simp
qed

lemma test_word_shape:
  "length (test_word n) = 11" "set (test_word n) \<subseteq> {CHR ''a'', CHR ''b''}"
  by (auto simp: test_word_def)

lemma wordlist_ok_test: "wordlist_ok test_wordlist"
proof -
  have "inj_on test_word {0..<2048}"
    by (rule inj_onI) (simp add: test_word_inj)
  then have "distinct test_wordlist"
    by (simp add: test_wordlist_def distinct_map)
  moreover have "erasure \<notin> set test_wordlist"
  proof
    assume "erasure \<in> set test_wordlist"
    then obtain n where "erasure = test_word n"
      by (auto simp: test_wordlist_def)
    then have "length erasure = length (test_word n)"
      by simp
    then show False
      by (simp add: test_word_shape(1) erasure_def)
  qed
  moreover have "test_word n \<noteq> [] \<and> CHR '' '' \<notin> set (test_word n)" for n
  proof -
    have "length (test_word n) = 11" "CHR '' '' \<notin> {CHR ''a'', CHR ''b''}"
      by (simp_all add: test_word_shape(1))
    then show ?thesis
      using test_word_shape(2) [of n] by auto
  qed
  then have "list_all (\<lambda>w. w \<noteq> [] \<and> CHR '' '' \<notin> set w) test_wordlist"
    by (simp add: test_wordlist_def list_all_iff)
  ultimately show ?thesis
    by (simp add: wordlist_ok_def test_wordlist_def gf_elements_def)
qed

lemma test_wordlist_nth: "i < 2048 \<Longrightarrow> get_word test_wordlist i = test_word i"
  by (simp add: get_word_def test_wordlist_def)

lemma test_word_in: "i < 2048 \<Longrightarrow> test_word i \<in> set test_wordlist"
  by (simp add: test_wordlist_def)

lemma test_word_0: "test_word 0 = ''aaaaaaaaaaa''"
  by (simp add: test_word_def upt_rec)

lemma word_coeff_test: "i < 2048 \<Longrightarrow> word_coeff test_wordlist (test_word i) = of_nat i"
  using wordlist_parse_nth [of test_wordlist i] wordlist_okD(1,2) [OF wordlist_ok_test]
  by (simp add: word_coeff_def test_wordlist_def)

text \<open>The phrase of fourteen times the first word is valid: it is the all-zero codeword.\<close>

lemma packed_zero: "packed 0 0 0 (replicate 16 0) = replicate 14 0"
  by (simp add: packed_def piece_def replicate14)

lemma parse_zero_phrase:
  "\<exists>s. parse test_kdf test_wordlist (join_sp (replicate 14 (test_word 0))) = Inr s"
proof -
  let ?ws = "replicate 14 (test_word 0)"
  have cs: "map (word_coeff test_wordlist) ?ws = (packed 0 0 0 (replicate 16 0))[0 := 0]"
    by (simp add: word_coeff_test packed_zero replicate14)
  have "parse test_kdf test_wordlist (join_sp ?ws) =
          decode test_kdf (set_degree \<lparr>coeff = map (word_coeff test_wordlist) ?ws, degree = 0\<rparr>) []"
    using test_word_in [of 0]
    by (subst parse_words [OF wordlist_ok_test])
       (simp_all add: phrase_words_def max_degree_def word_coeff_test)
  also have "set_degree \<lparr>coeff = map (word_coeff test_wordlist) ?ws, degree = 0\<rparr> =
      \<lparr>coeff = (packed 0 0 0 (replicate 16 0))[0 := 0],
       degree = highest_nonzero (map (word_coeff test_wordlist) ?ws) phrase_words\<rparr>"
    by (simp only: set_degree_def cs) simp
  finally show ?thesis
    by (simp add: decode_packed)
qed

lemma not_in_test_wordlist: "length w \<noteq> 11 \<Longrightarrow> w \<notin> set test_wordlist"
  by (auto simp: test_wordlist_def test_word_shape(1))

lemma replicate12: "replicate 12 x = [x, x, x, x, x, x, x, x, x, x, x, x]"
  by (simp add: eval_nat_numeral)

lemma quantize_epoch: "quantize 1590969600 = 0"
proof -
  have "uint (quantize 1590969600) = 0"
    by (simp add: uint_quantize epoch_def)
  then show ?thesis
    by (simp add: word_uint_eq_iff)
qed

lemma phrase_out_zero:
  assumes "generate test_kdf 1590969600 (replicate 16 0) = Inr s"
  shows "phrase_out test_wordlist s = join_sp (replicate 14 (test_word 0))"
proof -
  have "message s = \<lparr>coeff = replicate 14 0, degree = 13\<rparr>"
    using assms
    by (auto simp: generate_ok epoch_def seed_size_def quantize_epoch packed_zero replicate14
        rs_encode_def poly_eval_one)
  then show ?thesis
    by (simp add: phrase_out_def replicate14 test_wordlist_nth)
qed

section \<open>Salt and key\<close>

lemma make_salt_layout:
  "make_salt ver q =
     map (\<lambda>c. of_nat (of_char c)) ''Monero 14-word seed'' @
     [0, ucast ver, ucast q, ucast (drop_bit 8 q), ucast (drop_bit 16 q), ucast (drop_bit 24 q)]"
  by (simp add: make_salt_def store32_def salt_init_def eval_nat_numeral)

lemma read_bytes_length:
  "read_bytes p used_bits n = Inr (used1, bs) \<Longrightarrow> length bs = n"
  by (induction n arbitrary: used_bits used1 bs) (auto split: sum.splits)

lemma decode_key:
  assumes "decode kdf p corr = Inr s"
  shows "\<exists>q. date s = epoch + uint q * time_step \<and>
             key s = derive_key kdf (seed s) (version s) q \<and> length (seed s) = seed_size"
proof -
  obtain u3 u4 v q bs where "read_bytes p u3 seed_size = Inr (u4, bs)"
    and "seed s = bs" and "version s = v" and "key s = derive_key kdf bs v q"
    and "date s = epoch + uint q * time_step"
    using assms by (auto simp: decode_def split: sum.splits if_splits)
  then show ?thesis
    using read_bytes_length [of p u3 seed_size u4 bs] by (intro exI [of _ q]) simp
qed

lemma parse_key:
  assumes "parse kdf wl phrase = Inr s"
  shows "\<exists>q. date s = epoch + uint q * time_step \<and>
             key s = derive_key kdf (seed s) (version s) q \<and> length (seed s) = seed_size"
  using assms
  by (auto simp: parse_unfold split: sum.splits if_splits dest: decode_key)

lemma generate_key:
  assumes "generate kdf date_created rnd = Inr s"
  shows "date s = epoch + uint (quantize date_created) * time_step \<and>
         key s = derive_key kdf (seed s) (version s) (quantize date_created) \<and> seed s = rnd"
  using assms
  by (auto simp: generate_def Let_def split: sum.splits if_splits)

lemma construct_key:
  assumes "construct kdf wl c = Inr s"
  shows "\<exists>q. date s = epoch + uint q * time_step \<and>
             key s = derive_key kdf (seed s) (version s) q \<and>
             (construction_ok c \<longrightarrow> length (seed s) = seed_size) \<and>
             (\<forall>date_created rnd. c = Generate date_created rnd \<longrightarrow> q = quantize date_created)"
proof (cases c)
  case (Generate date_created rnd)
  then show ?thesis
    using assms generate_key [of kdf date_created rnd s] by auto
next
  case (Parse phrase)
  then show ?thesis
    using assms parse_key [of kdf wl phrase s] by auto
qed

lemma quantized_date_of_eq:
  "date s = epoch + uint (q :: u32) * time_step \<Longrightarrow> quantized_date_of s = uint q"
  by (simp add: quantized_date_of_def time_step_def)

section \<open>Phrases with too few or too many tokens\<close>

lemma scan_words_tokens:
  assumes ok: "wordlist_ok wl"
    and "\<forall>w\<in>set ws. w \<in> set wl \<or> w = erasure"
    and "length (filter (\<lambda>w. w = erasure) ws) \<le> (if err < 0 then 1 else 0)"
    and "word_count + length ws \<le> phrase_words"
  shows "\<exists>err1 msg1. scan_words wl ws word_count err msg = Inr (word_count + length ws, err1, msg1)"
  using assms(2-4)
proof (induction ws arbitrary: word_count err msg)
  case Nil
  then show ?case by simp
next
  case (Cons w ws)
  have wc: "\<not> phrase_words \<le> word_count"
    using Cons.prems(3) by simp
  show ?case
  proof (cases "w = erasure")
    case True
    then have idx: "wordlist_parse wl w = - 1"
      using wordlist_okD(3) [OF ok] by (simp add: wordlist_parse_absent)
    have err: "err < 0"
      using Cons.prems(2) True by (simp split: if_splits)
    have "\<exists>err1 msg1. scan_words wl ws (word_count + 1) (int word_count)
                 (msg[word_count := word_of_int (- 1)])
             = Inr (word_count + 1 + length ws, err1, msg1)"
      using Cons.prems True err by (intro Cons.IH) simp_all
    then show ?thesis
      using True idx err wc by simp
  next
    case False
    then have w: "w \<in> set wl"
      using Cons.prems(1) by simp
    then have idx: "wordlist_parse wl w \<noteq> - 1"
      using wordlist_parse_known [OF wordlist_okD(2) [OF ok] w] by auto
    have "\<exists>err1 msg1. scan_words wl ws (word_count + 1) err
                 (msg[word_count := word_of_int (wordlist_parse wl w)])
             = Inr (word_count + 1 + length ws, err1, msg1)"
      using Cons.prems False by (intro Cons.IH) simp_all
    then show ?thesis
      using idx wc by simp
  qed
qed

text \<open>
  A fifteenth token is stored at \<open>words[14]\<close> and \<open>message_[14]\<close>, outside both arrays, before
  the count of line 147 is reached.
\<close>

lemma parse_fifteen_words:
  assumes ok: "wordlist_ok wl" and known: "set ws \<subseteq> set wl" and len: "14 < length ws"
  shows "parse kdf wl (join_sp ws) = Inl OutOfBounds"
proof -
  obtain y ys where d: "drop 14 ws = y # ys"
    using len by (cases "drop 14 ws") simp_all
  have ne: "ws \<noteq> []"
    using len by auto
  have sp: "list_all spaceless ws"
    using known wordlist_okD(4) [OF ok] by (auto simp: list_all_iff)
  have loop: "parse_loop wl ([] @ join_sp ws) (length ([] :: string)) 0 (- 1)
          (replicate phrase_words 0)
          = scan_words wl ws 0 (- 1) (replicate phrase_words 0)"
    using ne sp by (rule parse_loop_join)
  have split: "ws = take 14 ws @ y # ys"
    using d by (metis append_take_drop_id)
  have "scan_words wl (take 14 ws @ y # ys) 0 (- 1) (replicate phrase_words 0)
          = Inl OutOfBounds"
    using scan_words_known [OF ok, where xs = "take 14 ws" and ys = "y # ys"
        and word_count = 0 and msg = "replicate phrase_words 0" and err = "- 1"]
      known set_take_subset [of 14 ws] len
    by (simp add: phrase_words_def max_degree_def subset_iff)
  then have "scan_words wl ws 0 (- 1) (replicate phrase_words 0) = Inl OutOfBounds"
    using split by simp
  then show ?thesis
    using loop by (simp add: parse_unfold)
qed

section \<open>The claims\<close>

text \<open>
  C1. For every 16-byte seed and every accepted creation date, generate succeeds, and parsing
  the phrase it emits yields a seed object with the same seed bytes, version, reserved field
  and date (and the same key). Every quantized date \<open>q\<close> in \<open>[0, 1023]\<close> is covered: it is the
  one of the creation date \<open>epoch + q * time_step\<close>.
\<close>

theorem C1_generate_parse_roundtrip:
  assumes "wordlist_ok wl" and "length rnd = 16" and "epoch \<le> date_created"
  shows "\<exists>s s'. generate kdf date_created rnd = Inr s \<and>
           parse kdf wl (phrase_out wl s) = Inr s' \<and>
           seed s = rnd \<and>
           date s = epoch + ((date_created - epoch) div time_step mod 1024) * time_step \<and>
           seed s' = seed s \<and> version s' = version s \<and>
           reserved s' = reserved s \<and> date s' = date s \<and> key s' = key s"
  using parse_generated [OF assms(1) _ assms(3), of rnd kdf] assms(2)
  by (simp add: seed_size_def) blast

theorem C1_generate_parse_roundtrip_witness:
  "\<exists>s s'. generate test_kdf (1590969600 + 12 * 2629746) (map of_nat [0..<16]) = Inr s \<and>
     parse test_kdf test_wordlist (phrase_out test_wordlist s) = Inr s' \<and>
     seed s' = map of_nat [0..<16] \<and> version s' = version s \<and> reserved s' = reserved s \<and>
     date s' = date s \<and> key s' = key s"
  using C1_generate_parse_roundtrip [where wl = test_wordlist and kdf = test_kdf
      and rnd = "map of_nat [0..<16]" and date_created = "1590969600 + 12 * 2629746"]
    wordlist_ok_test
  by (simp add: epoch_def) metis

text \<open>
  C2. For every valid phrase of 14 wordlist words and every position \<open>e\<close> in \<open>0..13\<close>,
  replacing the word at position \<open>e\<close> by the token \<open>xxxx\<close> yields a phrase whose parse
  succeeds: the scan over the field values finds a value that verifies, and the recorded
  correction is the original word at position \<open>e\<close>. The parsed seed, date and key are those
  of the original phrase.
\<close>

theorem C2_erasure_recovers_word:
  assumes ok: "wordlist_ok wl" and len: "length ws = 14" and known: "set ws \<subseteq> set wl"
    and valid: "parse kdf wl (join_sp ws) = Inr s" and e: "e < 14"
  shows "\<exists>s'. parse kdf wl (join_sp (ws[e := erasure])) = Inr s' \<and>
           correction s' = ws ! e \<and> seed s' = seed s \<and> date s' = date s \<and> key s' = key s"
proof -
  let ?cs = "map (word_coeff wl) ws"
  let ?t = "xorsum (?cs[e := 0])"
  let ?p = "set_degree \<lparr>coeff = ?cs, degree = 0\<rparr>"
  let ?p' = "(set_degree \<lparr>coeff = ?cs[e := 2047], degree = 0\<rparr>)\<lparr>coeff := ?cs[e := ?t]\<rparr>"
  have len': "length ws = phrase_words" and e': "e < phrase_words"
    using len e by (simp_all add: phrase_words_def max_degree_def)
  have we: "ws ! e \<in> set wl"
    using known len e by (simp add: subset_iff)
  have sum: "xorsum ?cs = 0" and dec: "decode kdf ?p [] = Inr s"
    using valid by (simp_all add: parse_words [OF ok len' known] split: if_splits)
  have "?t = xorsum ?cs XOR ?cs ! e XOR 0"
    using len e by (simp add: xorsum_update)
  then have t: "?t = word_coeff wl (ws ! e)"
    using len e by (simp add: sum)
  then have upd: "?cs[e := ?t] = ?cs"
    using len e by (simp add: list_update_same_conv)
  have "coeff ?p = coeff ?p'"
    by (simp add: upd)
  then have "decode kdf ?p' (ws ! e) = Inr (s\<lparr>correction := ws ! e, message := ?p'\<rparr>)"
    using dec by (rule decode_coeff)
  moreover have "get_word wl (unat ?t) = ws ! e"
    by (simp only: t get_word_coeff [OF ok we])
  ultimately have "parse kdf wl (join_sp (ws[e := erasure]))
      = Inr (s\<lparr>correction := ws ! e, message := ?p'\<rparr>)"
    by (simp only: parse_erased [OF ok len' known e'])
  then show ?thesis
    by simp
qed

theorem C2_erasure_recovers_word_witness:
  "\<exists>s'. parse test_kdf test_wordlist
          (join_sp ((replicate 14 (test_word 0))[7 := erasure])) = Inr s' \<and>
        correction s' = test_word 0"
proof -
  obtain s where "parse test_kdf test_wordlist (join_sp (replicate 14 (test_word 0))) = Inr s"
    using parse_zero_phrase by blast
  then show ?thesis
    using C2_erasure_recovers_word [where wl = test_wordlist and kdf = test_kdf and s = s
        and ws = "replicate 14 (test_word 0)" and e = 7]
      wordlist_ok_test test_word_in [of 0]
    by auto
qed

text \<open>
  C3. For every valid phrase of 14 wordlist words, every position \<open>e\<close> and every wordlist
  word \<open>w\<close> other than the word at position \<open>e\<close>, the phrase with \<open>w\<close> substituted at
  position \<open>e\<close> fails to parse with \<open>ChecksumMismatch\<close>.
\<close>

theorem C3_substitution_detected:
  assumes ok: "wordlist_ok wl" and len: "length ws = 14" and known: "set ws \<subseteq> set wl"
    and valid: "parse kdf wl (join_sp ws) = Inr s" and e: "e < 14"
    and w: "w \<in> set wl" and diff: "w \<noteq> ws ! e"
  shows "parse kdf wl (join_sp (ws[e := w])) = Inl ChecksumMismatch"
proof -
  let ?cs = "map (word_coeff wl) ws"
  have len': "length ws = phrase_words"
    using len by (simp add: phrase_words_def max_degree_def)
  have we: "ws ! e \<in> set wl"
    using known len e by (simp add: subset_iff)
  have sum: "xorsum ?cs = 0"
    using valid by (simp add: parse_words [OF ok len' known] split: if_splits)
  have known': "set (ws[e := w]) \<subseteq> set wl"
    using known w set_update_subset_insert [of ws e w] by auto
  have "xorsum (map (word_coeff wl) (ws[e := w])) = xorsum (?cs[e := word_coeff wl w])"
    by (simp add: map_update)
  also have "\<dots> = xorsum ?cs XOR ?cs ! e XOR word_coeff wl w"
    using len e by (simp add: xorsum_update)
  also have "\<dots> = word_coeff wl (ws ! e) XOR word_coeff wl w"
    using len e by (simp add: sum)
  finally have "xorsum (map (word_coeff wl) (ws[e := w])) = 0
      \<longleftrightarrow> word_coeff wl w = word_coeff wl (ws ! e)"
    by (simp add: xor_eq_zero_iff)
  moreover have "word_coeff wl w \<noteq> word_coeff wl (ws ! e)"
    using word_coeff_inj [OF ok w we] diff by blast
  ultimately show ?thesis
    using parse_words [OF ok _ known', of kdf] len' by simp
qed

theorem C3_substitution_detected_witness:
  "parse test_kdf test_wordlist (join_sp ((replicate 14 (test_word 0))[0 := test_word 1]))
     = Inl ChecksumMismatch"
proof -
  obtain s where "parse test_kdf test_wordlist (join_sp (replicate 14 (test_word 0))) = Inr s"
    using parse_zero_phrase by blast
  moreover have "test_word 1 \<noteq> test_word 0"
    using test_word_inj [of 1 0] by auto
  ultimately show ?thesis
    using C3_substitution_detected [where wl = test_wordlist and kdf = test_kdf and s = s
        and ws = "replicate 14 (test_word 0)" and e = 0 and w = "test_word 1"]
      wordlist_ok_test test_word_in [of 0] test_word_in [of 1]
    by auto
qed

text \<open>
  C4. In generate and in parse alike, the salt handed to Argon2id is exactly 25 bytes: the
  19 characters of \<open>Monero 14-word seed\<close>, a NUL byte at offset 19, the version byte at offset
  20 and the 32-bit quantized date, little-endian, at offsets 21..24; the key is the output
  of the hash for \<open>t_cost = 3\<close>, \<open>m_cost = 262144\<close>, \<open>parallelism = 1\<close>, output length 32,
  with the 16 seed bytes as password. The quantized date is the one the stored date is built
  from; in generate it is the quantized creation date.
\<close>

theorem C4_salt_layout_and_key:
  assumes "construction_ok c" and "construct kdf wl c = Inr s"
  shows "\<exists>quantized_date salt.
           date s = epoch + uint quantized_date * time_step \<and>
           (\<forall>date_created rnd. c = Generate date_created rnd \<longrightarrow>
              quantized_date = quantize date_created) \<and>
           salt = map (\<lambda>c. of_nat (of_char c)) ''Monero 14-word seed'' @
                  [0, ucast (version s), ucast quantized_date, ucast (drop_bit 8 quantized_date),
                   ucast (drop_bit 16 quantized_date), ucast (drop_bit 24 quantized_date)] \<and>
           length salt = 25 \<and> salt ! 19 = 0 \<and> length (seed s) = 16 \<and>
           key s = kdf 3 262144 1 (seed s) salt 32"
proof -
  obtain q where q: "date s = epoch + uint q * time_step"
    "key s = derive_key kdf (seed s) (version s) q"
    "length (seed s) = seed_size"
    "\<forall>date_created rnd. c = Generate date_created rnd \<longrightarrow> q = quantize date_created"
    using construct_key [OF assms(2)] assms(1) by blast
  let ?salt = "make_salt (version s) q"
  have "length ?salt = 25" "?salt ! 19 = 0"
    by (simp_all add: make_salt_layout)
  moreover have "key s = kdf 3 262144 1 (seed s) ?salt 32"
    by (simp add: q(2) derive_key_def argon_tcost_def argon_mcost_def key_size_def)
  ultimately show ?thesis
    using q(1,3,4) make_salt_layout [of "version s" q]
    by (intro exI [of _ q] exI [of _ ?salt]) (simp add: seed_size_def)
qed

theorem C4_salt_layout_and_key_witness:
  "(\<exists>s. generate test_kdf 1590969600 (replicate 16 0) = Inr s \<and>
      key s = test_kdf 3 262144 1 (replicate 16 0)
        (map (\<lambda>c. of_nat (of_char c)) ''Monero 14-word seed'' @ [0, 0, 0, 0, 0, 0]) 32) \<and>
   (\<exists>s. parse test_kdf test_wordlist (join_sp (replicate 14 (test_word 0))) = Inr s \<and>
      length (seed s) = 16 \<and>
      (\<exists>quantized_date :: u32.
         key s = test_kdf 3 262144 1 (seed s)
           (map (\<lambda>c. of_nat (of_char c)) ''Monero 14-word seed'' @
              [0, ucast (version s), ucast quantized_date, ucast (drop_bit 8 quantized_date),
               ucast (drop_bit 16 quantized_date), ucast (drop_bit 24 quantized_date)]) 32))"
proof
  let ?c = "Generate 1590969600 (replicate 16 0)"
  obtain s where s: "generate test_kdf 1590969600 (replicate 16 0) = Inr s"
    using generate_ok [of 1590969600 "replicate 16 0" test_kdf]
    by (simp add: epoch_def seed_size_def)
  have v: "version s = 0" "seed s = replicate 16 0"
    using s by (auto simp: generate_ok epoch_def seed_size_def)
  have ok: "construction_ok ?c"
    by (simp add: seed_size_def)
  have c: "construct test_kdf test_wordlist ?c = Inr s"
    using s by simp
  obtain q salt where *: "date s = epoch + uint q * time_step \<and>
      (\<forall>date_created rnd. ?c = Generate date_created rnd \<longrightarrow> q = quantize date_created) \<and>
      salt = map (\<lambda>c. of_nat (of_char c)) ''Monero 14-word seed'' @
             [0, ucast (version s), ucast q, ucast (drop_bit 8 q),
              ucast (drop_bit 16 q), ucast (drop_bit 24 q)] \<and>
      length salt = 25 \<and> salt ! 19 = 0 \<and> length (seed s) = 16 \<and>
      key s = test_kdf 3 262144 1 (seed s) salt 32"
    using C4_salt_layout_and_key [OF ok c] by (elim exE) (erule that)
  then have "q = 0"
    by (simp add: quantize_epoch)
  with * v have "key s = test_kdf 3 262144 1 (replicate 16 0)
        (map (\<lambda>c. of_nat (of_char c)) ''Monero 14-word seed'' @ [0, 0, 0, 0, 0, 0]) 32"
    by simp
  with s show "\<exists>s. generate test_kdf 1590969600 (replicate 16 0) = Inr s \<and>
      key s = test_kdf 3 262144 1 (replicate 16 0)
        (map (\<lambda>c. of_nat (of_char c)) ''Monero 14-word seed'' @ [0, 0, 0, 0, 0, 0]) 32"
    by blast
next
  let ?c = "Parse (join_sp (replicate 14 (test_word 0)))"
  obtain s where s: "parse test_kdf test_wordlist (join_sp (replicate 14 (test_word 0))) = Inr s"
    using parse_zero_phrase by blast
  have ok: "construction_ok ?c"
    by simp
  have c: "construct test_kdf test_wordlist ?c = Inr s"
    using s by simp
  obtain q salt where *: "date s = epoch + uint q * time_step \<and>
      (\<forall>date_created rnd. ?c = Generate date_created rnd \<longrightarrow> q = quantize date_created) \<and>
      salt = map (\<lambda>c. of_nat (of_char c)) ''Monero 14-word seed'' @
             [0, ucast (version s), ucast q, ucast (drop_bit 8 q),
              ucast (drop_bit 16 q), ucast (drop_bit 24 q)] \<and>
      length salt = 25 \<and> salt ! 19 = 0 \<and> length (seed s) = 16 \<and>
      key s = test_kdf 3 262144 1 (seed s) salt 32"
    using C4_salt_layout_and_key [OF ok c] by (elim exE) (erule that)
  then have "length (seed s) = 16" and "key s = test_kdf 3 262144 1 (seed s)
          (map (\<lambda>c. of_nat (of_char c)) ''Monero 14-word seed'' @
             [0, ucast (version s), ucast q, ucast (drop_bit 8 q),
              ucast (drop_bit 16 q), ucast (drop_bit 24 q)]) 32"
    by simp_all
  with s show "\<exists>s. parse test_kdf test_wordlist (join_sp (replicate 14 (test_word 0))) = Inr s \<and>
      length (seed s) = 16 \<and>
      (\<exists>quantized_date :: u32.
         key s = test_kdf 3 262144 1 (seed s)
           (map (\<lambda>c. of_nat (of_char c)) ''Monero 14-word seed'' @
              [0, ucast (version s), ucast quantized_date, ucast (drop_bit 8 quantized_date),
               ucast (drop_bit 16 quantized_date), ucast (drop_bit 24 quantized_date)]) 32)"
    by (intro exI [of _ s] conjI exI [of _ q])
qed

text \<open>
  C5, as stated, fails: a token that is neither a word nor the erasure marker is reported
  while the phrase is still being split, before the tokens are counted. The phrase below has
  thirteen tokens, the first of them unknown, and parse fails with \<open>UnknownWord\<close>.
\<close>

theorem C5_unknown_word_counterexample:
  "length (split_sp ''zzzz aaaaaaaaaaa aaaaaaaaaaa aaaaaaaaaaa aaaaaaaaaaa aaaaaaaaaaa aaaaaaaaaaa aaaaaaaaaaa aaaaaaaaaaa aaaaaaaaaaa aaaaaaaaaaa aaaaaaaaaaa aaaaaaaaaaa'') = 13 \<and>
   parse test_kdf test_wordlist ''zzzz aaaaaaaaaaa aaaaaaaaaaa aaaaaaaaaaa aaaaaaaaaaa aaaaaaaaaaa aaaaaaaaaaa aaaaaaaaaaa aaaaaaaaaaa aaaaaaaaaaa aaaaaaaaaaa aaaaaaaaaaa aaaaaaaaaaa''
     = Inl (UnknownWord ''zzzz'') \<and>
   parse test_kdf test_wordlist ''zzzz aaaaaaaaaaa aaaaaaaaaaa aaaaaaaaaaa aaaaaaaaaaa aaaaaaaaaaa aaaaaaaaaaa aaaaaaaaaaa aaaaaaaaaaa aaaaaaaaaaa aaaaaaaaaaa aaaaaaaaaaa aaaaaaaaaaa''
     \<noteq> Inl WrongTokenCount"
proof -
  let ?ws = "''zzzz'' # replicate 12 (test_word 0)"
  have p: "''zzzz aaaaaaaaaaa aaaaaaaaaaa aaaaaaaaaaa aaaaaaaaaaa aaaaaaaaaaa aaaaaaaaaaa aaaaaaaaaaa aaaaaaaaaaa aaaaaaaaaaa aaaaaaaaaaa aaaaaaaaaaa aaaaaaaaaaa'' = join_sp ?ws"
    by (simp add: test_word_0 eval_nat_numeral)
  have sp: "list_all spaceless ?ws"
    by (simp add: spaceless_def test_word_0 list_all_iff)
  have "split_sp (join_sp ?ws) = ?ws"
    using sp by (intro split_join) simp_all
  then have n: "length (split_sp (join_sp ?ws)) = 13"
    by simp
  have "''zzzz'' \<notin> set test_wordlist"
    by (rule not_in_test_wordlist) simp
  then have idx: "wordlist_parse test_wordlist ''zzzz'' = - 1"
    by (rule wordlist_parse_absent)
  have "parse_loop test_wordlist ([] @ join_sp ?ws) (length ([] :: string)) 0 (- 1)
          (replicate phrase_words 0)
          = scan_words test_wordlist ?ws 0 (- 1) (replicate phrase_words 0)"
    using sp by (intro parse_loop_join) simp_all
  also have "\<dots> = Inl (UnknownWord ''zzzz'')"
    by (simp add: idx erasure_def phrase_words_def)
  finally have "parse test_kdf test_wordlist (join_sp ?ws) = Inl (UnknownWord ''zzzz'')"
    by (simp add: parse_unfold)
  with n show ?thesis
    unfolding p by simp
qed

text \<open>
  C5, amended. For every input string that splits on single spaces into fewer than 14
  tokens, each of them a wordlist word or the erasure marker and at most one of them the
  marker, parse fails with \<open>WrongTokenCount\<close> and returns no seed object.
\<close>

theorem C5_too_few_tokens:
  assumes ok: "wordlist_ok wl" and few: "length (split_sp phrase) < 14"
    and tokens: "\<forall>w\<in>set (split_sp phrase). w \<in> set wl \<or> w = erasure"
    and one: "length (filter (\<lambda>w. w = erasure) (split_sp phrase)) \<le> 1"
  shows "parse kdf wl phrase = Inl WrongTokenCount"
proof -
  let ?ws = "split_sp phrase"
  have sp: "list_all spaceless ?ws"
    using tokens wordlist_okD(4) [OF ok] erasure_spaceless by (auto simp: list_all_iff)
  have "parse_loop wl ([] @ join_sp ?ws) (length ([] :: string)) 0 (- 1) (replicate phrase_words 0)
          = scan_words wl ?ws 0 (- 1) (replicate phrase_words 0)"
    using sp by (intro parse_loop_join) simp_all
  moreover obtain err1 msg1 where
    "scan_words wl ?ws 0 (- 1) (replicate phrase_words 0) = Inr (0 + length ?ws, err1, msg1)"
    using scan_words_tokens [OF ok tokens, of "- 1" 0 "replicate phrase_words 0"] one few
    by (auto simp: phrase_words_def max_degree_def)
  ultimately have "parse_loop wl phrase 0 0 (- 1) (replicate phrase_words 0)
      = Inr (length ?ws, err1, msg1)"
    by (simp add: join_split)
  then show ?thesis
    using few by (simp add: parse_unfold phrase_words_def max_degree_def)
qed

theorem C5_too_few_tokens_witness:
  "parse test_kdf test_wordlist (join_sp (replicate 13 (test_word 0))) = Inl WrongTokenCount"
proof -
  let ?ws = "replicate 13 (test_word 0)"
  have "list_all spaceless ?ws"
    by (simp add: spaceless_def test_word_0 list_all_iff)
  then have s: "split_sp (join_sp ?ws) = ?ws"
    by (intro split_join) simp_all
  have "test_word 0 \<noteq> erasure"
    by (simp add: test_word_0 erasure_def)
  then show ?thesis
    using C5_too_few_tokens [where wl = test_wordlist and kdf = test_kdf
        and phrase = "join_sp ?ws"] wordlist_ok_test test_word_in [of 0]
    by (simp add: s)
qed

text \<open>
  C6, as stated, fails at its last clause. The buckets of the quantization are the intervals
  \<open>[epoch + k * time_step, epoch + (k + 1) * time_step)\<close>. The date \<open>epoch + time_step\<close> lies
  exactly on the boundary between bucket 0 and bucket 1; the lower of the two is bucket 0,
  and the code maps the date to bucket 1.
\<close>

theorem C6_boundary_counterexample:
  "quantize (1590969600 + 2629746) = 1 \<and>
   quantize (1590969600 + 2629746) \<noteq> 0 \<and>
   map_sum id date (generate test_kdf (1590969600 + 2629746) (replicate 16 0))
     = Inr (1590969600 + 1 * 2629746)"
proof -
  have q: "uint (quantize (1590969600 + 2629746)) = 1"
    by (simp add: uint_quantize epoch_def time_step_def)
  then have "quantize (1590969600 + 2629746) = 1"
    by (simp add: word_uint_eq_iff)
  then show ?thesis
    by (simp add: generate_ok epoch_def seed_size_def time_step_def)
qed

text \<open>
  C6, amended. For every \<open>date_created \<ge> epoch\<close>, generate computes
  \<open>quantized_date = floor((date_created - epoch) / time_step) mod 1024\<close> and stores the date
  \<open>epoch + quantized_date * time_step\<close>. A \<open>date_created\<close> exactly on a boundary
  \<open>epoch + k * time_step\<close> maps to the bucket \<open>k mod 1024\<close> that begins there (the upper of the
  two buckets that meet at the boundary); the second before it maps to bucket
  \<open>(k - 1) mod 1024\<close>.
\<close>

theorem C6_quantized_date:
  assumes "epoch \<le> date_created" and "length rnd = seed_size"
  shows "uint (quantize date_created) = (date_created - epoch) div time_step mod 1024 \<and>
         (\<exists>s. generate kdf date_created rnd = Inr s \<and>
              date s = epoch + ((date_created - epoch) div time_step mod 1024) * time_step) \<and>
         (\<forall>k. date_created = epoch + k * time_step \<longrightarrow>
              uint (quantize date_created) = k mod 1024) \<and>
         (\<forall>k. date_created = epoch + k * time_step - 1 \<longrightarrow>
              uint (quantize date_created) = (k - 1) mod 1024)"
proof -
  have a: "uint (quantize date_created) = (date_created - epoch) div time_step mod 1024"
    by (rule uint_quantize)
  have b: "\<exists>s. generate kdf date_created rnd = Inr s \<and>
              date s = epoch + ((date_created - epoch) div time_step mod 1024) * time_step"
    by (simp add: generate_ok [OF assms] a)
  have c: "uint (quantize date_created) = k mod 1024"
    if "date_created = epoch + k * time_step" for k
    using that by (simp add: uint_quantize time_step_def)
  have d: "uint (quantize date_created) = (k - 1) mod 1024"
    if "date_created = epoch + k * time_step - 1" for k
  proof -
    have "k * 2629746 - 1 = 2629746 * (k - 1) + 2629745"
      by (simp add: algebra_simps)
    then have "(k * 2629746 - 1) div 2629746 = k - 1"
      by (rule int_div_pos_eq) simp_all
    then show ?thesis
      using that by (simp add: uint_quantize time_step_def)
  qed
  show ?thesis
    using a b c d by blast
qed

theorem C6_quantized_date_witness:
  "uint (quantize (1590969600 + 12 * 2629746)) = 12 \<and>
   (\<exists>s. generate test_kdf (1590969600 + 12 * 2629746) (replicate 16 0) = Inr s \<and>
        date s = 1590969600 + 12 * 2629746)"
  using C6_quantized_date [where rnd = "replicate 16 0" and kdf = test_kdf
      and date_created = "1590969600 + 12 * 2629746"]
  by (simp add: epoch_def seed_size_def time_step_def)

text \<open>
  C7. Generate raises \<open>DateBeforeEpoch\<close> if and only if \<open>date_created < epoch\<close>; every date
  from the epoch on is accepted, so \<open>date_created = epoch\<close> is accepted and \<open>epoch - 1\<close> is
  rejected.
\<close>

theorem C7_date_before_epoch:
  assumes "length rnd = seed_size"
  shows "(generate kdf date_created rnd = Inl DateBeforeEpoch \<longleftrightarrow> date_created < epoch) \<and>
         (\<not> date_created < epoch \<longrightarrow> (\<exists>s. generate kdf date_created rnd = Inr s))"
proof (cases "date_created < epoch")
  case True
  then show ?thesis
    by (simp add: generate_def)
next
  case False
  then have "epoch \<le> date_created"
    by simp
  then show ?thesis
    using False by (simp add: generate_ok [OF _ assms])
qed

theorem C7_date_before_epoch_witness:
  "(\<exists>s. generate test_kdf 1590969600 (replicate 16 0) = Inr s) \<and>
   generate test_kdf 1590969599 (replicate 16 0) = Inl DateBeforeEpoch"
  using C7_date_before_epoch [where rnd = "replicate 16 0" and kdf = test_kdf
      and date_created = 1590969600]
    C7_date_before_epoch [where rnd = "replicate 16 0" and kdf = test_kdf
      and date_created = 1590969599]
  by (simp add: epoch_def seed_size_def)

text \<open>
  C8. The phrase that the stream output emits for a generated seed splits on single spaces
  into exactly 14 tokens, each of them a wordlist entry. The degree of the message is the one
  the packer counted up, whatever the coefficients are; the witness is the seed of 16 zero
  bytes generated at the epoch, whose coefficients are all zero.
\<close>

theorem C8_phrase_of_14_words:
  assumes ok: "wordlist_ok wl" and len: "length rnd = 16"
    and gen: "generate kdf date_created rnd = Inr s"
  shows "length (split_sp (phrase_out wl s)) = 14 \<and> set (split_sp (phrase_out wl s)) \<subseteq> set wl"
proof -
  let ?cs = "(packed 0 0 (quantize date_created) rnd)[0 := xorsum (packed 0 0 (quantize date_created) rnd)]"
  let ?ws = "map (\<lambda>c. get_word wl (unat c)) ?cs"
  have d: "epoch \<le> date_created"
    using gen by (cases "date_created < epoch") (simp_all add: generate_def)
  have "message s = \<lparr>coeff = ?cs, degree = 13\<rparr>"
    using gen len by (auto simp: generate_ok [OF d] seed_size_def rs_encode_packed)
  then have out: "phrase_out wl s = join_sp ?ws"
    by (simp add: phrase_out_13)
  have known: "set ?ws \<subseteq> set wl"
    by (rule words_of_coeffs(1) [OF ok])
  then have sp: "list_all spaceless ?ws"
    using wordlist_okD(4) [OF ok] by (auto simp: list_all_iff)
  have ne: "?ws \<noteq> []"
    by (simp flip: length_0_conv)
  have "split_sp (join_sp ?ws) = ?ws"
    using ne sp by (rule split_join)
  then show ?thesis
    using known by (simp only: out) simp
qed

theorem C8_phrase_of_14_words_witness:
  "\<exists>s. generate test_kdf 1590969600 (replicate 16 0) = Inr s \<and>
       length (split_sp (phrase_out test_wordlist s)) = 14 \<and>
       set (split_sp (phrase_out test_wordlist s)) \<subseteq> set test_wordlist"
proof -
  obtain s where s: "generate test_kdf 1590969600 (replicate 16 0) = Inr s"
    using generate_ok [of 1590969600 "replicate 16 0" test_kdf]
    by (simp add: epoch_def seed_size_def)
  show ?thesis
    using C8_phrase_of_14_words [OF wordlist_ok_test _ s] s by simp
qed

text \<open>
  C9. The key is a function of the seed bytes, the version and the quantized date alone: two
  runs, each a generate or a parse, whatever their creation dates, random bytes, phrases or
  wordlists, that end with the same seed, version and quantized date end with the same key.
  Argon2id itself is a fixed function \<open>kdf\<close> of its arguments.
\<close>

theorem C9_key_deterministic:
  assumes "construct kdf wl1 c1 = Inr s1" and "construct kdf wl2 c2 = Inr s2"
    and "seed s1 = seed s2" and "version s1 = version s2"
    and "quantized_date_of s1 = quantized_date_of s2"
  shows "key s1 = key s2"
proof -
  obtain q1 where q1: "date s1 = epoch + uint q1 * time_step"
    "key s1 = derive_key kdf (seed s1) (version s1) q1"
    using construct_key [OF assms(1)] by blast
  obtain q2 where q2: "date s2 = epoch + uint q2 * time_step"
    "key s2 = derive_key kdf (seed s2) (version s2) q2"
    using construct_key [OF assms(2)] by blast
  have "uint q1 = uint q2"
    using assms(5) by (simp add: quantized_date_of_eq [OF q1(1)] quantized_date_of_eq [OF q2(1)])
  then have "q1 = q2"
    by (rule word_uint_eqI)
  then show ?thesis
    by (simp add: q1(2) q2(2) assms(3,4))
qed

theorem C9_key_deterministic_witness:
  "\<exists>s1 s2. generate test_kdf 1590969600 (replicate 16 0) = Inr s1 \<and>
     parse test_kdf test_wordlist (join_sp (replicate 14 (test_word 0))) = Inr s2 \<and>
     key s1 = key s2"
proof -
  obtain s1 s2 where s: "generate test_kdf 1590969600 (replicate 16 0) = Inr s1"
    "parse test_kdf test_wordlist (phrase_out test_wordlist s1) = Inr s2"
    "seed s2 = seed s1" "version s2 = version s1" "date s2 = date s1"
    using parse_generated [OF wordlist_ok_test, of "replicate 16 0" 1590969600 test_kdf]
    by (auto simp: seed_size_def epoch_def)
  have "phrase_out test_wordlist s1 = join_sp (replicate 14 (test_word 0))"
    using s(1) by (rule phrase_out_zero)
  then have p: "parse test_kdf test_wordlist (join_sp (replicate 14 (test_word 0))) = Inr s2"
    using s(2) by simp
  have "key s1 = key s2"
    using C9_key_deterministic [where kdf = test_kdf and ?wl1.0 = test_wordlist
        and ?wl2.0 = test_wordlist and ?c1.0 = "Generate 1590969600 (replicate 16 0)"
        and ?c2.0 = "Parse (join_sp (replicate 14 (test_word 0)))" and ?s1.0 = s1 and ?s2.0 = s2]
      s p
    by (simp add: quantized_date_of_def)
  with s(1) p show ?thesis
    by blast
qed

text \<open>
  C10 does not hold of the code. \<open>read_data\<close> masks with \<open>(1u << bits) - 1\<close> where
  \<open>write_data\<close> masks with \<open>(1u << digit_bits) - 1\<close>: when a field crosses a coefficient
  boundary, the bits that precede it in the first coefficient are ORed in above the field
  unless the destination type cuts them off. The two coefficient vectors below agree on the
  stream bits 16..25 of the date field, which are all zero, and differ in the reserved field
  (and the checksum); the read of the date returns 0 for the first and 1024 for the second.
  The phrase of the second vector parses to the date \<open>epoch + 1024 * time_step\<close>.
\<close>

theorem C10_read_data_leaks_preceding_bits:
  "read_data \<lparr>coeff = [0, 0, 0, 0, 0, 0, 0, 0, 0, 0, 0, 0, 0, 0], degree = 13\<rparr> 16 (0 :: u32) 10
     = Inr (26, 0) \<and>
   read_data \<lparr>coeff = [64, 64, 0, 0, 0, 0, 0, 0, 0, 0, 0, 0, 0, 0], degree = 13\<rparr> 16 (0 :: u32) 10
     = Inr (26, 1024) \<and>
   map_sum id date (parse test_kdf test_wordlist
       (join_sp (test_word 64 # test_word 64 # replicate 12 (test_word 0))))
     = Inr (1590969600 + 1024 * 2629746)"
proof -
  let ?ws = "test_word 64 # test_word 64 # replicate 12 (test_word 0)"
  have a: "read_data \<lparr>coeff = [0, 0, 0, 0, 0, 0, 0, 0, 0, 0, 0, 0, 0, 0], degree = 13\<rparr> 16 (0 :: u32) 10
     = Inr (26, 0)"
    by (simp add: read_data.simps Let_def gf_size_def max_degree_def)
  have b: "read_data \<lparr>coeff = [64, 64, 0, 0, 0, 0, 0, 0, 0, 0, 0, 0, 0, 0], degree = 13\<rparr> 16 (0 :: u32) 10
     = Inr (26, 1024)"
    by (simp add: read_data.simps Let_def gf_size_def max_degree_def)
  have cs: "map (word_coeff test_wordlist) ?ws = (packed 0 1 0 (replicate 16 0))[0 := 64]"
    by (simp add: word_coeff_test packed_def piece_def replicate12)
  have known: "set ?ws \<subseteq> set test_wordlist"
    using test_word_in [of 0] test_word_in [of 64] by simp
  have "parse test_kdf test_wordlist (join_sp ?ws) =
          decode test_kdf (set_degree \<lparr>coeff = map (word_coeff test_wordlist) ?ws, degree = 0\<rparr>) []"
    by (subst parse_words [OF wordlist_ok_test _ known])
       (simp_all add: phrase_words_def max_degree_def word_coeff_test)
  also have "set_degree \<lparr>coeff = map (word_coeff test_wordlist) ?ws, degree = 0\<rparr> =
      \<lparr>coeff = (packed 0 1 0 (replicate 16 0))[0 := 64],
       degree = highest_nonzero (map (word_coeff test_wordlist) ?ws) phrase_words\<rparr>"
    by (simp only: set_degree_def cs) simp
  finally have "map_sum id date (parse test_kdf test_wordlist (join_sp ?ws))
      = Inr (epoch + uint (leaked_date 0 1 0) * time_step)"
    by (simp add: decode_packed)
  moreover have "leaked_date 0 1 0 = 1024"
    by (simp add: leaked_date_def)
  ultimately show ?thesis
    using a b by (simp add: epoch_def time_step_def)
qed

end
